theory Spec2Isabelle
  imports Main "HOL-Library.Multiset"
begin

section \<open>The code-format manager\<close>

text \<open>
  A shallow embedding of \<open>CodeFormatManager\<close>: the provider registry, the three
  formatting paths (command, type, save) and the stream that arbitrates between them.
  An asynchronous function of the source is split where it waits: the part that runs
  when the observable is subscribed (the body of \<open>Observable.defer\<close>), and the
  callback that runs when the provider's promise has settled.
\<close>

subsection \<open>Host data: points, ranges, editors\<close>

record point =
  row :: int
  column :: int

text \<open>The fields \<open>start\<close> and \<open>end\<close> of an Atom range.\<close>

record atom_range =
  range_start :: point
  range_end :: point

definition isLessThanOrEqual :: "point \<Rightarrow> point \<Rightarrow> bool" where
  "isLessThanOrEqual a b = (row a < row b \<or> (row a = row b \<and> column a \<le> column b))"

text \<open>\<open>new Range(a, b)\<close>: the constructor of the host orders its two points.\<close>

definition Range :: "point \<Rightarrow> point \<Rightarrow> atom_range" where
  "Range a b =
     (if isLessThanOrEqual a b then \<lparr>range_start = a, range_end = b\<rparr>
      else \<lparr>range_start = b, range_end = a\<rparr>)"

definition isEmpty :: "atom_range \<Rightarrow> bool" where
  "isEmpty r = (range_start r = range_end r)"

text \<open>\<open>point.translate([dr, dc])\<close>.\<close>

definition translate :: "point \<Rightarrow> int \<Rightarrow> int \<Rightarrow> point" where
  "translate p dr dc = \<lparr>row = row p + dr, column = column p + dc\<rparr>"

subsection \<open>Providers and errors\<close>

text \<open>
  A provider object. \<open>ident\<close> stands for the identity of the object (\<open>indexOf\<close>
  compares references); each of the three flags says that the method of that name is
  not null. What a method computes arrives later, as the settlement of its promise.
\<close>

record provider =
  ident :: nat
  selector :: string
  inclusionPriority :: int
  formatCode :: bool
  formatEntireFile :: bool
  formatAtPosition :: bool

text \<open>
  The errors of the formatting paths: the four that the manager throws, with the
  messages of the source, the rejection of a provider's promise, and the error of the
  \<open>timeout\<close> operator.
\<close>

datatype error =
  NoProviders string
  | ContentsChanged
  | CouldNotApply
  | MustImplement
  | Rejected string
  | TimeoutError

fun message :: "error \<Rightarrow> string" where
  "message (NoProviders scope) = ''No Code-Format providers registered for scope: '' @ scope"
| "message ContentsChanged = ''The file contents were changed before formatting was complete.''"
| "message CouldNotApply = ''Could not apply edits to text buffer.''"
| "message MustImplement = ''code-format providers must implement formatCode or formatEntireFile''"
| "message (Rejected m) = m"
| "message TimeoutError = ''Timeout has occurred''"

subsection \<open>The host\<close>

text \<open>
  The payload of a buffer change (\<open>atom$TextEditEvent\<close>): the fields the code reads. A
  string is the list of the units that \<open>length\<close> counts and indexing reads.
\<close>

record textEditEvent =
  oldText :: string
  newText :: string

text \<open>A text edit proposed by a provider: the range it replaces and the new text.\<close>

datatype textEdit = TextEdit atom_range string

text \<open>
  The functions of the host and of the JavaScript engine that the manager calls:
  \<open>Array.prototype.sort\<close> with a comparator, \<open>applyTextEditsToBuffer\<close> (whether it
  succeeded, and the text it left in the buffer), \<open>buffer.getRange()\<close> as a function
  of the text, and \<open>buffer.positionForCharacterIndex\<close>.
\<close>

record hostApi =
  arraySort :: "(provider \<Rightarrow> provider \<Rightarrow> int) \<Rightarrow> provider list \<Rightarrow> provider list"
  applyTextEditsToBuffer :: "string \<Rightarrow> textEdit list \<Rightarrow> bool \<times> string"
  getRange :: "string \<Rightarrow> atom_range"
  positionForCharacterIndex :: "string \<Rightarrow> int \<Rightarrow> point"

text \<open>
  A text buffer is known by its identity, an editor by its buffer and a number of its
  own: \<open>editor.getBuffer()\<close> is the first component, and several editors can show one
  buffer.
\<close>

type_synonym buffer_id = nat

type_synonym editor_id = "buffer_id \<times> nat"

definition getBuffer :: "editor_id \<Rightarrow> buffer_id" where
  "getBuffer e = fst e"

record view =
  grammar :: string
  selected :: atom_range
  cursorAt :: point

text \<open>
  The state of the host that the manager reads: the editors, the texts of the buffers,
  the setting \<open>getFormatOnType()\<close>, whether the package bracket-matcher is active, and its
  setting \<open>autocompleteCharacters\<close>.
\<close>

record host =
  views :: "editor_id \<Rightarrow> view"
  texts :: "buffer_id \<Rightarrow> string"
  formatOnType :: bool
  bracketMatcher :: bool
  autocompleteCharacters :: "string list"

text \<open>
  What the manager reads from a text editor at one instant: \<open>getGrammar().scopeName\<close>,
  \<open>getText()\<close>, \<open>getSelectedBufferRange()\<close>, \<open>getCursorBufferPosition()\<close> and
  \<open>getBuffer().getRange()\<close>.
\<close>

record editor =
  scopeName :: string
  contents :: string
  selection :: atom_range
  cursor :: point
  bufferRange :: atom_range

definition readEditor :: "hostApi \<Rightarrow> host \<Rightarrow> editor_id \<Rightarrow> editor" where
  "readEditor api h e =
     \<lparr>scopeName = grammar (views h e), contents = texts h (getBuffer e),
      selection = selected (views h e), cursor = cursorAt (views h e),
      bufferRange = getRange api (texts h (getBuffer e))\<rparr>"

text \<open>Storing what a callback did to the editor: its text, selection and cursor.\<close>

definition writeEditor :: "host \<Rightarrow> editor_id \<Rightarrow> editor \<Rightarrow> host" where
  "writeEditor h e ed =
     h\<lparr>texts := (texts h)(getBuffer e := contents ed),
       views := (views h)(e := (views h e)\<lparr>selected := selection ed, cursorAt := cursor ed\<rparr>)\<rparr>"

subsection \<open>The registry\<close>

text \<open>
  \<open>selector.split(/, ?/)\<close>: the pieces between the separators, a separator being a comma
  and the space after it when there is one. \<open>cur\<close> is the piece being read, reversed.
\<close>

fun splitSelector :: "string \<Rightarrow> string \<Rightarrow> string list" where
  "splitSelector cur [] = [rev cur]"
| "splitSelector cur [c] = (if c = CHR '','' then [rev cur, []] else [rev (c # cur)])"
| "splitSelector cur (c # d # cs) =
     (if c = CHR '','' \<and> d = CHR '' '' then rev cur # splitSelector [] cs
      else if c = CHR '','' then rev cur # splitSelector [] (d # cs)
      else splitSelector (c # cur) (d # cs))"

text \<open>The filter of \<open>_getMatchingProvidersForScopeName\<close>.\<close>

definition matchesScope :: "string \<Rightarrow> provider \<Rightarrow> bool" where
  "matchesScope scope p =
     (inclusionPriority p > 0 \<and> scope \<in> set (splitSelector [] (selector p)))"

text \<open>
  The comparator handed to \<open>sort\<close>. It returns the boolean
  \<open>providerA.inclusionPriority < providerB.inclusionPriority\<close>, which the sort reads as
  the number 1 or 0: it is never negative.
\<close>

definition comparePriority :: "provider \<Rightarrow> provider \<Rightarrow> int" where
  "comparePriority providerA providerB =
     (if inclusionPriority providerA < inclusionPriority providerB then 1 else 0)"

definition getMatchingProvidersForScopeName ::
  "hostApi \<Rightarrow> provider list \<Rightarrow> string \<Rightarrow> provider list" where
  "getMatchingProvidersForScopeName api codeFormatProviders scope =
     arraySort api comparePriority (filter (matchesScope scope) codeFormatProviders)"

text \<open>\<open>array.indexOf(x)\<close>: the first index holding \<open>x\<close>, or \<open>None\<close> for -1.\<close>

fun indexOf :: "'a list \<Rightarrow> 'a \<Rightarrow> nat option" where
  "indexOf [] x = None"
| "indexOf (y # ys) x = (if y = x then Some 0 else map_option Suc (indexOf ys x))"

text \<open>\<open>addProvider\<close> pushes the provider; the disposer it returns is \<open>removeProvider\<close>.\<close>

definition addProvider :: "'a list \<Rightarrow> 'a \<Rightarrow> 'a list" where
  "addProvider codeFormatProviders p = codeFormatProviders @ [p]"

text \<open>
  The disposer: \<open>splice(index)\<close> with no delete count removes every element from
  \<open>index\<close> to the end of the array.
\<close>

definition removeProvider :: "'a list \<Rightarrow> 'a \<Rightarrow> 'a list" where
  "removeProvider codeFormatProviders p =
     (case indexOf codeFormatProviders p of
        None \<Rightarrow> codeFormatProviders
      | Some index \<Rightarrow> take index codeFormatProviders)"

subsection \<open>Two sorts an engine may run\<close>

text \<open>
  The order that \<open>sort\<close> gives under a comparator that is not a consistent ordering is
  left to the engine. Two insertion sorts, both stable and both correct under a
  consistent comparator, differ on which argument order and which sign they test. Each
  keeps the sorted prefix reversed, nearest element first.

  \<open>sortBelow\<close> moves the new element \<open>x\<close> left past \<open>y\<close> when \<open>cmp x y < 0\<close>, the test
  that a binary insertion makes.
\<close>

fun insertBelow :: "('a \<Rightarrow> 'a \<Rightarrow> int) \<Rightarrow> 'a \<Rightarrow> 'a list \<Rightarrow> 'a list" where
  "insertBelow cmp x [] = [x]"
| "insertBelow cmp x (y # ys) =
     (if cmp x y < 0 then y # insertBelow cmp x ys else x # y # ys)"

definition sortBelow :: "('a \<Rightarrow> 'a \<Rightarrow> int) \<Rightarrow> 'a list \<Rightarrow> 'a list" where
  "sortBelow cmp xs = rev (foldl (\<lambda>acc x. insertBelow cmp x acc) [] xs)"

text \<open>
  \<open>sortAbove\<close> moves \<open>y\<close> right past the new element \<open>x\<close> when \<open>cmp y x > 0\<close>, the test
  that a plain insertion sort makes.
\<close>

fun insertAbove :: "('a \<Rightarrow> 'a \<Rightarrow> int) \<Rightarrow> 'a \<Rightarrow> 'a list \<Rightarrow> 'a list" where
  "insertAbove cmp x [] = [x]"
| "insertAbove cmp x (y # ys) =
     (if cmp y x > 0 then y # insertAbove cmp x ys else x # y # ys)"

definition sortAbove :: "('a \<Rightarrow> 'a \<Rightarrow> int) \<Rightarrow> 'a list \<Rightarrow> 'a list" where
  "sortAbove cmp xs = rev (foldl (\<lambda>acc x. insertAbove cmp x acc) [] xs)"

text \<open>The comparator that returns a number: negative, zero or positive.\<close>

definition byPriorityDescending :: "provider \<Rightarrow> provider \<Rightarrow> int" where
  "byPriorityDescending providerA providerB =
     inclusionPriority providerB - inclusionPriority providerA"

subsection \<open>The on-type heuristic\<close>

definition isBracketPair :: "host \<Rightarrow> string \<Rightarrow> bool" where
  "isBracketPair h typedText =
     (if \<not> bracketMatcher h then False else typedText \<in> set (autocompleteCharacters h))"

definition shouldFormatOnType :: "host \<Rightarrow> textEditEvent \<Rightarrow> bool" where
  "shouldFormatOnType h event =
     (if oldText event \<noteq> [] then False
      else if oldText event = [] \<and> newText event = [] then False
      else if length (newText event) > 1 \<and> \<not> isBracketPair h (newText event) then False
      else True)"

subsection \<open>Formatting requests and their callbacks\<close>

text \<open>A call of a provider's method, with the arguments after the editor.\<close>

datatype call =
  FormatCode provider atom_range
  | FormatEntireFile provider atom_range
  | FormatAtPosition provider point char

text \<open>
  What subscribing to a deferred observable does at once: it throws, it is
  \<open>Observable.empty()\<close>, or it leaves an operation waiting.
\<close>

datatype 'a started = Failed error | Nothing | Awaiting 'a

text \<open>The range handed to the provider on the command and save paths.\<close>

definition formatRange :: "editor \<Rightarrow> atom_range" where
  "formatRange ed =
     (let selectionStart = range_start (selection ed);
          selectionEnd = range_end (selection ed)
      in if isEmpty (selection ed) then bufferRange ed
         else Range \<lparr>row = row selectionStart, column = 0\<rparr>
                (if column selectionEnd = 0 then selectionEnd
                 else \<lparr>row = row selectionEnd + 1, column = 0\<rparr>))"

text \<open>
  \<open>_formatCodeInTextEditor\<close>, the deferred body up to the call of the provider. The
  snapshot that the callbacks compare against is \<open>contents ed\<close>.
\<close>

definition formatCodeInTextEditor :: "hostApi \<Rightarrow> provider list \<Rightarrow> editor \<Rightarrow> call started" where
  "formatCodeInTextEditor api codeFormatProviders ed =
     (case filter (\<lambda>p. formatCode p \<or> formatEntireFile p)
             (getMatchingProvidersForScopeName api codeFormatProviders (scopeName ed)) of
        [] \<Rightarrow> Failed (NoProviders (scopeName ed))
      | p # _ \<Rightarrow>
          if formatCode p \<and> (\<not> isEmpty (selection ed) \<or> \<not> formatEntireFile p)
            then Awaiting (FormatCode p (formatRange ed))
          else if formatEntireFile p
            then Awaiting (FormatEntireFile p (formatRange ed))
          else Failed MustImplement)"

definition formatCodeOnSaveInTextEditor ::
  "hostApi \<Rightarrow> provider list \<Rightarrow> editor \<Rightarrow> call started" where
  "formatCodeOnSaveInTextEditor api codeFormatProviders ed =
     formatCodeInTextEditor api codeFormatProviders ed"

text \<open>\<open>_checkContentsAreSame\<close>: the error it throws, if any.\<close>

definition checkContentsAreSame :: "string \<Rightarrow> string \<Rightarrow> error option" where
  "checkContentsAreSame textBefore textAfter =
     (if textBefore \<noteq> textAfter then Some ContentsChanged else None)"

text \<open>
  The callback on the edits of \<open>formatCode\<close>: the error thrown, if any, and the editor
  as the callback leaves it.
\<close>

definition onFormatCode ::
  "hostApi \<Rightarrow> string \<Rightarrow> editor \<Rightarrow> textEdit list \<Rightarrow> error option \<times> editor" where
  "onFormatCode api snapshot ed edits =
     (case checkContentsAreSame snapshot (contents ed) of
        Some err \<Rightarrow> (Some err, ed)
      | None \<Rightarrow>
          (let (ok, txt) = applyTextEditsToBuffer api (contents ed) edits
           in (if \<not> ok then Some CouldNotApply else None, ed\<lparr>contents := txt\<rparr>)))"

text \<open>
  The callback on the result \<open>{newCursor, formatted}\<close> of \<open>formatEntireFile\<close>. The
  position of \<open>newCursor\<close> is read in the new text; without \<open>newCursor\<close> the cursor
  stays (where the host moves it along with the text is not modelled);
  \<open>setCursorBufferPosition\<close> also clears the selection.
\<close>

definition onFormatEntireFile ::
  "hostApi \<Rightarrow> string \<Rightarrow> editor \<Rightarrow> int option \<Rightarrow> string \<Rightarrow> error option \<times> editor" where
  "onFormatEntireFile api snapshot ed newCursor formatted =
     (case checkContentsAreSame snapshot (contents ed) of
        Some err \<Rightarrow> (Some err, ed)
      | None \<Rightarrow>
          (let newPosition =
                 (case newCursor of
                    Some i \<Rightarrow> positionForCharacterIndex api formatted i
                  | None \<Rightarrow> cursor ed)
           in (None, ed\<lparr>contents := formatted, cursor := newPosition,
                         selection := Range newPosition newPosition\<rparr>)))"

text \<open>
  \<open>_formatCodeOnTypeInTextEditor\<close>, the deferred body: what waits for the next tick is
  the provider, the snapshot of the text and the trigger character.
\<close>

definition formatCodeOnTypeInTextEditor ::
  "hostApi \<Rightarrow> provider list \<Rightarrow> host \<Rightarrow> editor \<Rightarrow> textEditEvent \<Rightarrow>
   (provider \<times> string \<times> char) started" where
  "formatCodeOnTypeInTextEditor api codeFormatProviders h ed event =
     (if \<not> shouldFormatOnType h event \<or> \<not> formatOnType h then Nothing
      else
        (let character = last (newText event)
         in case filter formatAtPosition
                  (getMatchingProvidersForScopeName api codeFormatProviders (scopeName ed)) of
              [] \<Rightarrow> Nothing
            | p # _ \<Rightarrow> Awaiting (p, contents ed, character)))"

text \<open>After the tick: the call, at the cursor of that moment moved one column back.\<close>

definition formatAtPositionCall :: "provider \<Rightarrow> char \<Rightarrow> editor \<Rightarrow> call" where
  "formatAtPositionCall p character ed =
     FormatAtPosition p (translate (cursor ed) 0 (- 1)) character"

text \<open>The callback on the edits of \<open>formatAtPosition\<close>.\<close>

definition onFormatAtPosition ::
  "hostApi \<Rightarrow> string \<Rightarrow> editor \<Rightarrow> textEdit list \<Rightarrow> error option \<times> editor" where
  "onFormatAtPosition api snapshot ed edits =
     (if length edits = 0 then (None, ed)
      else
        (case checkContentsAreSame snapshot (contents ed) of
           Some err \<Rightarrow> (Some err, ed)
         | None \<Rightarrow>
             (let (ok, txt) = applyTextEditsToBuffer api (contents ed) edits
              in (if \<not> ok then Some CouldNotApply else None, ed\<lparr>contents := txt\<rparr>))))"

subsection \<open>Handling one event\<close>

text \<open>A \<open>FormatEvent\<close> is a trigger and its editor.\<close>

datatype trigger = CommandEvent | TypeEvent textEditEvent | SaveEvent

text \<open>
  What the manager does to the world besides editing a buffer:
  \<open>atom.notifications.addError\<close> with a title and a description, \<open>logger.warn\<close>, a call
  of a provider, and \<open>buffer.save()\<close>.
\<close>

datatype effect =
  AddError string string
  | Warn string error
  | Invoke call
  | SaveBuffer buffer_id

definition SAVE_TIMEOUT :: nat where
  "SAVE_TIMEOUT = 2500"

text \<open>What an operation is waiting for; each holds the snapshot \<open>contents\<close>.\<close>

datatype pending =
  AwaitFormatCode string
  | AwaitFormatEntireFile string
  | AwaitTick provider string char
  | AwaitFormatAtPosition string

fun snapshotOf :: "pending \<Rightarrow> string" where
  "snapshotOf (AwaitFormatCode snapshot) = snapshot"
| "snapshotOf (AwaitFormatEntireFile snapshot) = snapshot"
| "snapshotOf (AwaitTick p snapshot character) = snapshot"
| "snapshotOf (AwaitFormatAtPosition snapshot) = snapshot"

definition awaitReply :: "call \<Rightarrow> string \<Rightarrow> pending" where
  "awaitReply c snapshot =
     (case c of
        FormatCode _ _ \<Rightarrow> AwaitFormatCode snapshot
      | FormatEntireFile _ _ \<Rightarrow> AwaitFormatEntireFile snapshot
      | FormatAtPosition _ _ _ \<Rightarrow> AwaitFormatAtPosition snapshot)"

text \<open>
  \<open>_handleEvent\<close>, at subscription: the calls made at once, and either how the
  formatting observable ended there (\<open>Inl\<close>: with an error or without) or what it waits
  for (\<open>Inr\<close>).
\<close>

definition handleEvent ::
  "hostApi \<Rightarrow> provider list \<Rightarrow> host \<Rightarrow> trigger \<Rightarrow> editor_id \<Rightarrow>
   effect list \<times> (error option + pending)" where
  "handleEvent api codeFormatProviders h t e =
     (let ed = readEditor api h e
      in case t of
           CommandEvent \<Rightarrow>
             (case formatCodeInTextEditor api codeFormatProviders ed of
                Failed err \<Rightarrow> ([], Inl (Some err))
              | Nothing \<Rightarrow> ([], Inl None)
              | Awaiting c \<Rightarrow> ([Invoke c], Inr (awaitReply c (contents ed))))
         | TypeEvent event \<Rightarrow>
             (case formatCodeOnTypeInTextEditor api codeFormatProviders h ed event of
                Failed err \<Rightarrow> ([], Inl (Some err))
              | Nothing \<Rightarrow> ([], Inl None)
              | Awaiting (p, snapshot, character) \<Rightarrow> ([], Inr (AwaitTick p snapshot character)))
         | SaveEvent \<Rightarrow>
             (case formatCodeOnSaveInTextEditor api codeFormatProviders ed of
                Failed err \<Rightarrow> ([], Inl (Some err))
              | Nothing \<Rightarrow> ([], Inl None)
              | Awaiting c \<Rightarrow> ([Invoke c], Inr (awaitReply c (contents ed)))))"

text \<open>The handler inside the \<open>catch\<close> of each case of \<open>_handleEvent\<close>.\<close>

definition reportFailure :: "trigger \<Rightarrow> error \<Rightarrow> effect list" where
  "reportFailure t err =
     (case t of
        CommandEvent \<Rightarrow> [AddError ''Failed to format code'' (message err)]
      | TypeEvent _ \<Rightarrow> [Warn ''Failed to format code on type:'' err]
      | SaveEvent \<Rightarrow> [Warn ''Failed to format code on save:'' err])"

text \<open>
  \<open>.catch(err => { ...; return Observable.empty(); })\<close>: the handler's effects, and
  the error that goes on down the stream.
\<close>

definition catchError :: "(error \<Rightarrow> effect list) \<Rightarrow> error option \<Rightarrow> effect list \<times> error option" where
  "catchError handler outcome =
     (case outcome of None \<Rightarrow> ([], None) | Some err \<Rightarrow> (handler err, None))"

text \<open>
  \<open>.finally(() => editor.getBuffer().save())\<close> of the save case: it runs when the
  subscription ends, by completion, by error or by being unsubscribed.
\<close>

definition finallySave :: "trigger \<Rightarrow> buffer_id \<Rightarrow> effect list" where
  "finallySave t b = (case t of SaveEvent \<Rightarrow> [SaveBuffer b] | _ \<Rightarrow> [])"

text \<open>
  How the observable of \<open>_handleEvent\<close> ends once the formatting observable has ended
  with \<open>outcome\<close> (for a save, \<open>TimeoutError\<close> is one of its errors): the effects, and the
  error handed to the stream.
\<close>

definition handleEventEnd :: "trigger \<Rightarrow> buffer_id \<Rightarrow> error option \<Rightarrow> effect list \<times> error option" where
  "handleEventEnd t b outcome =
     (let (effs, escaped) = catchError (reportFailure t) outcome
      in (effs @ finallySave t b, escaped))"

text \<open>The settlement of a provider's promise.\<close>

datatype reply =
  Edits "textEdit list"
  | Formatted "int option" string
  | Reject string

text \<open>
  The callback that a settlement runs: \<open>None\<close> where nothing waits for it (before the
  tick no call has been made; a method's promise resolves to that method's kind of
  result).
\<close>

fun onSettled :: "hostApi \<Rightarrow> pending \<Rightarrow> reply \<Rightarrow> editor \<Rightarrow> (error option \<times> editor) option" where
  "onSettled api (AwaitTick p snapshot character) r ed = None"
| "onSettled api w (Reject m) ed = Some (Some (Rejected m), ed)"
| "onSettled api (AwaitFormatCode snapshot) (Edits edits) ed =
     Some (onFormatCode api snapshot ed edits)"
| "onSettled api (AwaitFormatEntireFile snapshot) (Formatted newCursor formatted) ed =
     Some (onFormatEntireFile api snapshot ed newCursor formatted)"
| "onSettled api (AwaitFormatAtPosition snapshot) (Edits edits) ed =
     Some (onFormatAtPosition api snapshot ed edits)"
| "onSettled api w r ed = None"

subsection \<open>The event stream\<close>

text \<open>
  \<open>_subscribeToEvents\<close>: the merged events are grouped by buffer, and in each group
  \<open>switchMap\<close> subscribes to the observable of the latest event after unsubscribing from
  the one before. An operation is such a subscription while it lives.
\<close>

record operation =
  opId :: nat
  opEditor :: editor_id
  opTrigger :: trigger
  opPending :: pending
  opSince :: nat

text \<open>
  The manager and its world. \<open>active\<close> holds the live operations of all groups;
  \<open>history\<close> lists every event handled, latest first, with its number, its group and
  the time; \<open>journal\<close> lists the effects in order, each with the number of its event.
\<close>

record manager =
  codeFormatProviders :: "provider list"
  host :: host
  active :: "operation list"
  subscribed :: bool
  clock :: nat
  nextId :: nat
  history :: "(nat \<times> buffer_id \<times> trigger \<times> nat) list"
  journal :: "(nat \<times> effect) list"

definition initial :: "host \<Rightarrow> manager" where
  "initial h =
     \<lparr>codeFormatProviders = [], host = h, active = [], subscribed = True, clock = 0,
      nextId = 0, history = [], journal = []\<rparr>"

definition opBuffer :: "operation \<Rightarrow> buffer_id" where
  "opBuffer op = getBuffer (opEditor op)"

text \<open>The number of the latest event handled for a buffer.\<close>

definition latest :: "(nat \<times> buffer_id \<times> trigger \<times> nat) list \<Rightarrow> buffer_id \<Rightarrow> nat option" where
  "latest h b = (case filter (\<lambda>(i, b', t, t0). b' = b) h of [] \<Rightarrow> None | (i, _) # _ \<Rightarrow> Some i)"

text \<open>The operations chosen by \<open>P\<close> leave \<open>active\<close>, each recording its effects \<open>f\<close>.\<close>

definition removeOps :: "(operation \<Rightarrow> bool) \<Rightarrow> (operation \<Rightarrow> effect list) \<Rightarrow> manager \<Rightarrow> manager" where
  "removeOps P f s =
     s\<lparr>active := filter (\<lambda>op. \<not> P op) (active s),
       journal := journal s @ concat (map (\<lambda>op. map (Pair (opId op)) (f op)) (filter P (active s)))\<rparr>"

text \<open>Unsubscribing runs only the \<open>finally\<close> of an operation.\<close>

definition unsubscribe :: "(operation \<Rightarrow> bool) \<Rightarrow> manager \<Rightarrow> manager" where
  "unsubscribe P s = removeOps P (\<lambda>op. finallySave (opTrigger op) (opBuffer op)) s"

text \<open>
  An error that nothing catches reaches \<open>subscribe()\<close> and ends the whole stream, as
  \<open>dispose\<close> does: every operation is unsubscribed.
\<close>

definition teardown :: "manager \<Rightarrow> manager" where
  "teardown s = (unsubscribe (\<lambda>op. True) s)\<lparr>subscribed := False\<rparr>"

text \<open>The operations chosen by \<open>P\<close> end with \<open>outcome\<close>.\<close>

definition endOps :: "(operation \<Rightarrow> bool) \<Rightarrow> error option \<Rightarrow> manager \<Rightarrow> manager" where
  "endOps P outcome s =
     (let s' = removeOps P (\<lambda>op. fst (handleEventEnd (opTrigger op) (opBuffer op) outcome)) s
      in if list_all (\<lambda>op. snd (handleEventEnd (opTrigger op) (opBuffer op) outcome) = None)
              (filter P (active s))
         then s' else teardown s')"

text \<open>\<open>.timeout(SAVE_TIMEOUT)\<close>: a save still waiting when its time is up ends with the error.\<close>

definition expire :: "manager \<Rightarrow> manager" where
  "expire s =
     endOps (\<lambda>op. opTrigger op = SaveEvent \<and> opSince op + SAVE_TIMEOUT \<le> clock s)
       (Some TimeoutError) s"

text \<open>
  What happens, as the manager sees it: a format event, the tick an on-type operation
  waits for, the settlement of the promise of an operation, the destruction of a buffer,
  any change of the host's state by the user or the host, the registration of a provider,
  the disposer of a provider, and \<open>dispose\<close>.
\<close>

datatype event =
  Trigger trigger editor_id
  | NextTick nat
  | Settled nat reply
  | BufferDestroyed buffer_id
  | HostChanged host
  | ProviderAdded provider
  | ProviderDisposed provider
  | Disposed

text \<open>A new event of a group: the operation before it is unsubscribed, then its own begins.\<close>

definition onTrigger :: "hostApi \<Rightarrow> trigger \<Rightarrow> editor_id \<Rightarrow> manager \<Rightarrow> manager" where
  "onTrigger api t e s =
     (let s1 = unsubscribe (\<lambda>op. opBuffer op = getBuffer e) s;
          i = nextId s1;
          (effs, res) = handleEvent api (codeFormatProviders s1) (host s1) t e;
          s2 = s1\<lparr>nextId := Suc i,
                  history := (i, getBuffer e, t, clock s1) # history s1,
                  journal := journal s1 @ map (Pair i) effs\<rparr>
      in case res of
           Inr w \<Rightarrow>
             s2\<lparr>active := active s2 @
                  [\<lparr>opId = i, opEditor = e, opTrigger = t, opPending = w, opSince = clock s1\<rparr>]\<rparr>
         | Inl outcome \<Rightarrow>
             (let (effs', escaped) = handleEventEnd t (getBuffer e) outcome;
                  s3 = s2\<lparr>journal := journal s2 @ map (Pair i) effs'\<rparr>
              in if escaped = None then s3 else teardown s3))"

definition onNextTick :: "hostApi \<Rightarrow> nat \<Rightarrow> manager \<Rightarrow> manager" where
  "onNextTick api i s =
     (case find (\<lambda>op. opId op = i) (active s) of
        None \<Rightarrow> s
      | Some op \<Rightarrow>
          (case opPending op of
             AwaitTick p snapshot character \<Rightarrow>
               s\<lparr>active := map (\<lambda>op'. if opId op' = i
                                       then op'\<lparr>opPending := AwaitFormatAtPosition snapshot\<rparr>
                                       else op') (active s),
                 journal := journal s @
                   [(i, Invoke (formatAtPositionCall p character
                                  (readEditor api (host s) (opEditor op))))]\<rparr>
           | _ \<Rightarrow> s))"

definition onSettlement :: "hostApi \<Rightarrow> nat \<Rightarrow> reply \<Rightarrow> manager \<Rightarrow> manager" where
  "onSettlement api i r s =
     (case find (\<lambda>op. opId op = i) (active s) of
        None \<Rightarrow> s
      | Some op \<Rightarrow>
          (case onSettled api (opPending op) r (readEditor api (host s) (opEditor op)) of
             None \<Rightarrow> s
           | Some (outcome, ed') \<Rightarrow>
               endOps (\<lambda>op'. opId op' = i) outcome
                 (s\<lparr>host := writeEditor (host s) (opEditor op) ed'\<rparr>)))"

text \<open>
  One event. The stream handles nothing once it has ended. The destruction of a buffer
  closes its group: the sentinel \<open>null\<close> switches to \<open>Observable.empty()\<close>.
\<close>

fun step :: "hostApi \<Rightarrow> event \<Rightarrow> manager \<Rightarrow> manager" where
  "step api (Trigger t e) s = (if subscribed s then onTrigger api t e s else s)"
| "step api (NextTick i) s = (if subscribed s then onNextTick api i s else s)"
| "step api (Settled i r) s = (if subscribed s then onSettlement api i r s else s)"
| "step api (BufferDestroyed b) s =
     (if subscribed s then unsubscribe (\<lambda>op. opBuffer op = b) s else s)"
| "step api (HostChanged h) s = s\<lparr>host := h\<rparr>"
| "step api (ProviderAdded p) s =
     s\<lparr>codeFormatProviders := addProvider (codeFormatProviders s) p\<rparr>"
| "step api (ProviderDisposed p) s =
     s\<lparr>codeFormatProviders := removeProvider (codeFormatProviders s) p\<rparr>"
| "step api Disposed s = (teardown s)\<lparr>codeFormatProviders := []\<rparr>"

text \<open>An event arrives \<open>d\<close> milliseconds after the one before; the timers run first.\<close>

definition stepAfter :: "hostApi \<Rightarrow> nat \<times> event \<Rightarrow> manager \<Rightarrow> manager" where
  "stepAfter api dev s = step api (snd dev) (expire (s\<lparr>clock := clock s + fst dev\<rparr>))"

definition run :: "hostApi \<Rightarrow> (nat \<times> event) list \<Rightarrow> manager \<Rightarrow> manager" where
  "run api evs s = foldl (\<lambda>s' dev. stepAfter api dev s') s evs"

subsection \<open>Example values\<close>

text \<open>Three providers for \<open>source.js\<close>, of priorities 1, 5 and 9.\<close>

definition providerLow :: provider where
  "providerLow =
     \<lparr>ident = 1, selector = ''source.js, source.ts'', inclusionPriority = 1,
      formatCode = True, formatEntireFile = False, formatAtPosition = True\<rparr>"

definition providerHigh :: provider where
  "providerHigh =
     \<lparr>ident = 2, selector = ''source.js'', inclusionPriority = 5,
      formatCode = True, formatEntireFile = True, formatAtPosition = False\<rparr>"

definition providerNeither :: provider where
  "providerNeither =
     \<lparr>ident = 3, selector = ''source.js'', inclusionPriority = 9,
      formatCode = False, formatEntireFile = False, formatAtPosition = True\<rparr>"

text \<open>
  A host whose buffers hold one line, and whose \<open>applyTextEditsToBuffer\<close> succeeds and
  leaves the new texts of the edits.
\<close>

definition exampleApi :: hostApi where
  "exampleApi =
     \<lparr>arraySort = sortAbove,
      applyTextEditsToBuffer =
        (\<lambda>txt edits. (True, concat (map (\<lambda>e. case e of TextEdit r new \<Rightarrow> new) edits))),
      getRange = (\<lambda>txt. Range \<lparr>row = 0, column = 0\<rparr> \<lparr>row = 0, column = int (length txt)\<rparr>),
      positionForCharacterIndex = (\<lambda>txt i. \<lparr>row = 0, column = i\<rparr>)\<rparr>"

definition exampleHost :: host where
  "exampleHost =
     \<lparr>views = (\<lambda>e. \<lparr>grammar = ''source.js'',
                      selected = Range \<lparr>row = 0, column = 1\<rparr> \<lparr>row = 0, column = 1\<rparr>,
                      cursorAt = \<lparr>row = 0, column = 1\<rparr>\<rparr>),
      texts = (\<lambda>b. ''x''),
      formatOnType = True,
      bracketMatcher = True,
      autocompleteCharacters = [''()'', ''[]'', ''{}'']\<rparr>"

text \<open>An editor on \<open>source.js\<close> with the selection from (r1, c1) to (r2, c2).\<close>

definition selectionIn :: "int \<Rightarrow> int \<Rightarrow> int \<Rightarrow> int \<Rightarrow> editor" where
  "selectionIn r1 c1 r2 c2 =
     \<lparr>scopeName = ''source.js'', contents = ''x'',
      selection = \<lparr>range_start = \<lparr>row = r1, column = c1\<rparr>, range_end = \<lparr>row = r2, column = c2\<rparr>\<rparr>,
      cursor = \<lparr>row = r2, column = c2\<rparr>,
      bufferRange = \<lparr>range_start = \<lparr>row = 0, column = 0\<rparr>, range_end = \<lparr>row = 9, column = 0\<rparr>\<rparr>\<rparr>"

text \<open>
  Six saves of one buffer: the provider succeeds, the provider fails, the provider
  stays silent for 2500 ms, the buffer is destroyed, no provider is registered, and one
  save that is still waiting.
\<close>

definition saveScenario :: "(nat \<times> event) list" where
  "saveScenario =
     [(0, ProviderAdded providerHigh),
      (0, Trigger SaveEvent (0, 0)),
      (100, Settled 0 (Formatted None ''y'')),
      (50, Trigger SaveEvent (0, 0)),
      (100, Settled 1 (Reject ''down'')),
      (50, Trigger SaveEvent (0, 0)),
      (2500, Trigger SaveEvent (0, 0)),
      (10, BufferDestroyed 0),
      (10, ProviderDisposed providerHigh),
      (10, Trigger SaveEvent (0, 0)),
      (10, ProviderAdded providerHigh),
      (10, Trigger SaveEvent (0, 1))]"

text \<open>Two keystrokes in one buffer; the answer to the first arrives after the second.\<close>

definition typingScenario :: "(nat \<times> event) list" where
  "typingScenario =
     [(0, ProviderAdded providerLow),
      (0, Trigger (TypeEvent \<lparr>oldText = [], newText = ''a''\<rparr>) (0, 0)),
      (0, NextTick 0),
      (5, Trigger (TypeEvent \<lparr>oldText = [], newText = ''b''\<rparr>) (0, 0)),
      (0, NextTick 1),
      (5, Settled 0 (Edits [TextEdit (Range \<lparr>row = 0, column = 0\<rparr> \<lparr>row = 0, column = 1\<rparr>) ''first'']))]"


text \<open>A save that is still waiting when the manager is disposed.\<close>

definition disposeScenario :: "(nat \<times> event) list" where
  "disposeScenario =
     [(0, ProviderAdded providerHigh),
      (0, Trigger SaveEvent (0, 0)),
      (10, Disposed)]"

subsection \<open>Invariants of the stream\<close>

text \<open>
  What holds of every state the manager reaches: the live operations have distinct
  numbers and distinct buffers; each is recorded in the history and is the latest event of
  its buffer; the numbers in the history are distinct and below \<open>nextId\<close>; the buffer of
  a save event has been saved once when its operation is over, and not yet while it lives.
\<close>

definition consistent :: "manager \<Rightarrow> bool" where
  "consistent s =
     (distinct (map opId (active s)) \<and>
      distinct (map opBuffer (active s)) \<and>
      (\<forall>op\<in>set (active s).
         opId op < nextId s \<and>
         (opId op, opBuffer op, opTrigger op, opSince op) \<in> set (history s) \<and>
         latest (history s) (opBuffer op) = Some (opId op)) \<and>
      distinct (map fst (history s)) \<and>
      (\<forall>(i, b, t, t0)\<in>set (history s).
         i < nextId s \<and>
         (t = SaveEvent \<longrightarrow>
            count_list (journal s) (i, SaveBuffer b) =
              (if i \<in> opId ` set (active s) then 0 else 1))) \<and>
      (\<forall>(i, eff)\<in>set (journal s). i < nextId s))"

text \<open>No save waits longer than its timeout.\<close>

definition timely :: "manager \<Rightarrow> bool" where
  "timely s =
     (\<forall>op\<in>set (active s). opTrigger op = SaveEvent \<longrightarrow> clock s < opSince op + SAVE_TIMEOUT)"


section \<open>Properties\<close>

subsection \<open>Sorting under the two engines\<close>

lemma insertBelow_never_negative:
  "(\<And>y. 0 \<le> cmp x y) \<Longrightarrow> insertBelow cmp x ys = x # ys"
  by (cases ys) (auto simp: not_less[symmetric])

lemma foldl_insertBelow_never_negative:
  "(\<And>x y. 0 \<le> cmp x y) \<Longrightarrow> foldl (\<lambda>acc x. insertBelow cmp x acc) acc xs = rev xs @ acc"
  by (induction xs arbitrary: acc) (simp_all add: insertBelow_never_negative)

lemma sortBelow_never_negative: "(\<And>x y. 0 \<le> cmp x y) \<Longrightarrow> sortBelow cmp xs = xs"
  by (simp add: sortBelow_def foldl_insertBelow_never_negative)

lemma comparePriority_nonneg: "0 \<le> comparePriority a b"
  by (simp add: comparePriority_def)

lemma mset_insertBelow: "mset (insertBelow cmp x ys) = add_mset x (mset ys)"
  by (induction ys) auto

lemma mset_foldl_insertBelow:
  "mset (foldl (\<lambda>acc x. insertBelow cmp x acc) acc xs) = mset xs + mset acc"
  by (induction xs arbitrary: acc) (auto simp: mset_insertBelow)

lemma mset_sortBelow: "mset (sortBelow cmp xs) = mset xs"
  by (simp add: sortBelow_def mset_foldl_insertBelow)

lemma mset_insertAbove: "mset (insertAbove cmp x ys) = add_mset x (mset ys)"
  by (induction ys) auto

lemma mset_foldl_insertAbove:
  "mset (foldl (\<lambda>acc x. insertAbove cmp x acc) acc xs) = mset xs + mset acc"
  by (induction xs arbitrary: acc) (auto simp: mset_insertAbove)

lemma mset_sortAbove: "mset (sortAbove cmp xs) = mset xs"
  by (simp add: sortAbove_def mset_foldl_insertAbove)

text \<open>
  Under the comparator that returns a number, \<open>sortBelow\<close> sorts by descending priority
  and keeps the order of equal priorities. (The prefix is kept reversed, so it ascends.)
\<close>

lemma sorted_insertBelow:
  "sorted_wrt (\<lambda>a b. inclusionPriority a \<le> inclusionPriority b) ys \<Longrightarrow>
   sorted_wrt (\<lambda>a b. inclusionPriority a \<le> inclusionPriority b)
     (insertBelow byPriorityDescending x ys)"
  by (induction ys)
    (auto simp: byPriorityDescending_def set_mset_mset[symmetric] mset_insertBelow
      simp del: set_mset_mset)

lemma filter_insertBelow:
  "sorted_wrt (\<lambda>a b. inclusionPriority a \<le> inclusionPriority b) ys \<Longrightarrow>
   filter (\<lambda>p. inclusionPriority p = k) (insertBelow byPriorityDescending x ys) =
   filter (\<lambda>p. inclusionPriority p = k) (x # ys)"
  by (induction ys) (auto simp: byPriorityDescending_def)

lemma sorted_foldl_insertBelow:
  "sorted_wrt (\<lambda>a b. inclusionPriority a \<le> inclusionPriority b) acc \<Longrightarrow>
   sorted_wrt (\<lambda>a b. inclusionPriority a \<le> inclusionPriority b)
     (foldl (\<lambda>acc x. insertBelow byPriorityDescending x acc) acc xs)"
  by (induction xs arbitrary: acc) (simp_all add: sorted_insertBelow)

lemma filter_foldl_insertBelow:
  "sorted_wrt (\<lambda>a b. inclusionPriority a \<le> inclusionPriority b) acc \<Longrightarrow>
   filter (\<lambda>p. inclusionPriority p = k)
     (foldl (\<lambda>acc x. insertBelow byPriorityDescending x acc) acc xs) =
   rev (filter (\<lambda>p. inclusionPriority p = k) xs) @ filter (\<lambda>p. inclusionPriority p = k) acc"
  by (induction xs arbitrary: acc) (simp_all add: sorted_insertBelow filter_insertBelow)

lemma sortBelow_byPriorityDescending:
  "sorted_wrt (\<lambda>a b. inclusionPriority a \<ge> inclusionPriority b)
     (sortBelow byPriorityDescending xs) \<and>
   mset (sortBelow byPriorityDescending xs) = mset xs \<and>
   filter (\<lambda>p. inclusionPriority p = k) (sortBelow byPriorityDescending xs) =
     filter (\<lambda>p. inclusionPriority p = k) xs"
proof -
  have "sorted_wrt (\<lambda>a b. inclusionPriority a \<le> inclusionPriority b)
          (foldl (\<lambda>acc x. insertBelow byPriorityDescending x acc) [] xs)"
    by (rule sorted_foldl_insertBelow) simp
  then have "sorted_wrt (\<lambda>a b. inclusionPriority a \<ge> inclusionPriority b)
          (sortBelow byPriorityDescending xs)"
    by (simp add: sortBelow_def sorted_wrt_rev)
  moreover have "filter (\<lambda>p. inclusionPriority p = k) (sortBelow byPriorityDescending xs) =
     filter (\<lambda>p. inclusionPriority p = k) xs"
    by (simp add: sortBelow_def rev_filter[symmetric] filter_foldl_insertBelow)
  ultimately show ?thesis by (simp add: mset_sortBelow)
qed

text \<open>
  Under the comparator of the source, \<open>sortBelow\<close> moves nothing: the providers come out
  in the order of their registration, whatever their priorities.
\<close>

lemma resolve_sortBelow:
  "getMatchingProvidersForScopeName (api\<lparr>arraySort := sortBelow\<rparr>) ps scope =
   filter (matchesScope scope) ps"
  by (simp add: getMatchingProvidersForScopeName_def sortBelow_never_negative
      comparePriority_nonneg)

lemma providerLow_matches: "matchesScope ''source.js'' providerLow"
  by (simp add: matchesScope_def providerLow_def)

lemma providerHigh_matches: "matchesScope ''source.js'' providerHigh"
  by (simp add: matchesScope_def providerHigh_def)

lemma providerNeither_matches: "matchesScope ''source.js'' providerNeither"
  by (simp add: matchesScope_def providerNeither_def)

text \<open>Under \<open>sortAbove\<close> the same call puts the priority 5 first.\<close>

lemma resolve_sortAbove_example:
  "getMatchingProvidersForScopeName (api\<lparr>arraySort := sortAbove\<rparr>)
     [providerLow, providerHigh] ''source.js'' = [providerHigh, providerLow]"
  by (simp add: getMatchingProvidersForScopeName_def providerLow_matches providerHigh_matches)
     (simp add: providerLow_def providerHigh_def sortAbove_def comparePriority_def)

text \<open>
  For every registry, \<open>sortAbove\<close> under the comparator of the source does what
  \<open>sortBelow\<close> does under the comparator that returns a number: it sorts by descending
  priority and keeps the order of equal priorities.
\<close>

lemma insertAbove_comparePriority:
  "insertAbove comparePriority x ys = insertBelow byPriorityDescending x ys"
  by (induction ys) (simp_all add: comparePriority_def byPriorityDescending_def)

lemma sortAbove_comparePriority:
  "sortAbove comparePriority xs = sortBelow byPriorityDescending xs"
  by (simp add: sortAbove_def sortBelow_def insertAbove_comparePriority)

lemma resolve_sortAbove:
  "getMatchingProvidersForScopeName (api\<lparr>arraySort := sortAbove\<rparr>) ps scope =
   sortBelow byPriorityDescending (filter (matchesScope scope) ps)"
  by (simp add: getMatchingProvidersForScopeName_def sortAbove_comparePriority)

subsection \<open>The disposer\<close>

lemma indexOf_append: "p \<notin> set xs \<Longrightarrow> indexOf (xs @ p # ys) p = Some (length xs)"
  by (induction xs) auto

lemma indexOf_None: "(indexOf xs p = None) = (p \<notin> set xs)"
  by (induction xs) auto

text \<open>The disposer keeps what was registered before the provider, and nothing after it.\<close>

lemma removeProvider_splice: "p \<notin> set xs \<Longrightarrow> removeProvider (xs @ p # ys) p = xs"
  by (simp add: removeProvider_def indexOf_append)

lemma removeProvider_absent: "p \<notin> set xs \<Longrightarrow> removeProvider xs p = xs"
  using indexOf_None [of xs p] by (simp add: removeProvider_def)

subsection \<open>Reading and writing an editor\<close>

lemma write_read_texts: "texts (writeEditor h e (readEditor api h e)) = texts h"
  by (simp add: writeEditor_def readEditor_def)

lemma write_read_views: "views (writeEditor h e (readEditor api h e)) = views h"
  by (simp add: writeEditor_def readEditor_def fun_eq_iff)

lemma write_read: "writeEditor h e (readEditor api h e) = h"
  by (simp add: writeEditor_def readEditor_def)

subsection \<open>The providers that the command path considers\<close>

lemma set_resolve:
  assumes "\<And>cmp xs. mset (arraySort api cmp xs) = mset xs"
  shows "set (getMatchingProvidersForScopeName api ps scope) = {p \<in> set ps. matchesScope scope p}"
proof -
  have "mset (getMatchingProvidersForScopeName api ps scope) = mset (filter (matchesScope scope) ps)"
    by (simp add: getMatchingProvidersForScopeName_def assms)
  then have "set (getMatchingProvidersForScopeName api ps scope) = set (filter (matchesScope scope) ps)"
    by (rule mset_eq_setD)
  then show ?thesis by simp
qed

lemma capable_nil:
  assumes "\<And>cmp xs. mset (arraySort api cmp xs) = mset xs"
  shows "(filter (\<lambda>p. formatCode p \<or> formatEntireFile p)
            (getMatchingProvidersForScopeName api ps scope) = []) =
         (\<forall>p\<in>set ps. matchesScope scope p \<longrightarrow> \<not> formatCode p \<and> \<not> formatEntireFile p)"
  by (auto simp: filter_empty_conv set_resolve [OF assms])

lemma capable_hd:
  assumes "\<And>cmp xs. mset (arraySort api cmp xs) = mset xs"
    and "filter (\<lambda>p. formatCode p \<or> formatEntireFile p)
            (getMatchingProvidersForScopeName api ps scope) = p # rest"
  shows "p \<in> set ps \<and> matchesScope scope p \<and> (formatCode p \<or> formatEntireFile p)"
proof -
  have "p \<in> set (filter (\<lambda>p. formatCode p \<or> formatEntireFile p)
            (getMatchingProvidersForScopeName api ps scope))"
    by (simp add: assms(2))
  then show ?thesis
    by (simp add: set_resolve [OF assms(1)])
qed

lemma exampleApi_permutes: "mset (arraySort exampleApi cmp xs) = mset xs"
  by (simp add: exampleApi_def mset_sortAbove)

subsection \<open>The stream keeps its invariants\<close>

lemma handleEventEnd_escaped [simp]: "snd (handleEventEnd t b outcome) = None"
  by (simp add: handleEventEnd_def catchError_def split: option.splits)

lemma handleEventEnd_effects:
  "fst (handleEventEnd t b outcome) =
     (case outcome of None \<Rightarrow> [] | Some err \<Rightarrow> reportFailure t err) @ finallySave t b"
  by (simp add: handleEventEnd_def catchError_def split: option.splits)

lemma count_reportFailure [simp]: "count_list (reportFailure t err) (SaveBuffer b) = 0"
  by (simp add: reportFailure_def split: trigger.splits)

lemma count_finallySave [simp]:
  "count_list (finallySave t b) (SaveBuffer b') = (if t = SaveEvent \<and> b' = b then 1 else 0)"
  by (simp add: finallySave_def split: trigger.splits)

lemma count_handleEventEnd [simp]:
  "count_list (fst (handleEventEnd t b outcome)) (SaveBuffer b') =
     (if t = SaveEvent \<and> b' = b then 1 else 0)"
  by (simp add: handleEventEnd_effects split: option.splits)

lemma endOps_removeOps:
  "endOps P outcome s =
     removeOps P (\<lambda>op. fst (handleEventEnd (opTrigger op) (opBuffer op) outcome)) s"
  by (simp add: endOps_def list_all_iff)

lemma removeOps_fields [simp]:
  "active (removeOps P f s) = filter (\<lambda>op. \<not> P op) (active s)"
  "journal (removeOps P f s) =
     journal s @ concat (map (\<lambda>op. map (Pair (opId op)) (f op)) (filter P (active s)))"
  "history (removeOps P f s) = history s"
  "nextId (removeOps P f s) = nextId s"
  "host (removeOps P f s) = host s"
  "clock (removeOps P f s) = clock s"
  "subscribed (removeOps P f s) = subscribed s"
  "codeFormatProviders (removeOps P f s) = codeFormatProviders s"
  by (simp_all add: removeOps_def)

lemma count_map_Pair:
  "count_list (map (Pair a) xs) (i, x) = (if a = i then count_list xs x else 0)"
  by (induction xs) auto

lemma count_removed_other:
  "i \<notin> opId ` set ops \<Longrightarrow>
   count_list (concat (map (\<lambda>op. map (Pair (opId op)) (f op)) ops)) (i, x) = 0"
  by (induction ops) (auto simp: count_map_Pair)

lemma count_removed:
  "distinct (map opId ops) \<Longrightarrow> op \<in> set ops \<Longrightarrow>
   count_list (concat (map (\<lambda>op. map (Pair (opId op)) (f op)) ops)) (opId op, x) =
     count_list (f op) x"
  by (induction ops) (auto simp: count_map_Pair count_removed_other)

lemma journal_ids_removed:
  "(i, eff) \<in> set (concat (map (\<lambda>op. map (Pair (opId op)) (f op)) ops)) \<Longrightarrow>
   i \<in> opId ` set ops"
  by (induction ops) auto

lemma history_entry_unique:
  "distinct (map fst h) \<Longrightarrow> (i, x) \<in> set h \<Longrightarrow> (i, y) \<in> set h \<Longrightarrow> x = y"
  by (meson eq_key_imp_eq_value)

lemma active_id_unique:
  "distinct (map opId ops) \<Longrightarrow> op \<in> set ops \<Longrightarrow> op' \<in> set ops \<Longrightarrow> opId op = opId op' \<Longrightarrow>
   op = op'"
  by (simp add: distinct_map inj_on_def)

lemma consistentI:
  assumes "distinct (map opId (active s))"
    and "distinct (map opBuffer (active s))"
    and "\<And>op. op \<in> set (active s) \<Longrightarrow>
         opId op < nextId s \<and>
         (opId op, opBuffer op, opTrigger op, opSince op) \<in> set (history s) \<and>
         latest (history s) (opBuffer op) = Some (opId op)"
    and "distinct (map fst (history s))"
    and "\<And>i b t t0. (i, b, t, t0) \<in> set (history s) \<Longrightarrow> i < nextId s"
    and "\<And>i b t0. (i, b, SaveEvent, t0) \<in> set (history s) \<Longrightarrow>
         count_list (journal s) (i, SaveBuffer b) =
           (if i \<in> opId ` set (active s) then 0 else 1)"
    and "\<And>i eff. (i, eff) \<in> set (journal s) \<Longrightarrow> i < nextId s"
  shows "consistent s"
  unfolding consistent_def using assms by (intro conjI ballI) (auto split: prod.splits)

lemma consistentD:
  assumes "consistent s"
  shows "distinct (map opId (active s))"
    and "distinct (map opBuffer (active s))"
    and "\<And>op. op \<in> set (active s) \<Longrightarrow> opId op < nextId s"
    and "\<And>op. op \<in> set (active s) \<Longrightarrow>
         (opId op, opBuffer op, opTrigger op, opSince op) \<in> set (history s)"
    and "\<And>op. op \<in> set (active s) \<Longrightarrow> latest (history s) (opBuffer op) = Some (opId op)"
    and "distinct (map fst (history s))"
    and "\<And>i b t t0. (i, b, t, t0) \<in> set (history s) \<Longrightarrow> i < nextId s"
    and "\<And>i b t0. (i, b, SaveEvent, t0) \<in> set (history s) \<Longrightarrow>
         count_list (journal s) (i, SaveBuffer b) =
           (if i \<in> opId ` set (active s) then 0 else 1)"
    and "\<And>i eff. (i, eff) \<in> set (journal s) \<Longrightarrow> i < nextId s"
  using assms unfolding consistent_def by (auto split: prod.splits)

lemma consistent_removeOps:
  assumes ok: "consistent s"
    and f: "\<And>op b. op \<in> set (active s) \<Longrightarrow> P op \<Longrightarrow>
              count_list (f op) (SaveBuffer b) =
                (if opTrigger op = SaveEvent \<and> b = opBuffer op then 1 else 0)"
  shows "consistent (removeOps P f s)"
proof (rule consistentI)
  note dI = consistentD(1) [OF ok] and dB = consistentD(2) [OF ok] and dH = consistentD(6) [OF ok]
  let ?gone = "filter P (active s)"
  let ?added = "concat (map (\<lambda>op. map (Pair (opId op)) (f op)) ?gone)"
  have dG: "distinct (map opId ?gone)"
    using dI by (simp add: distinct_map_filter)
  show "distinct (map opId (active (removeOps P f s)))"
    using dI by (simp add: distinct_map_filter)
  show "distinct (map opBuffer (active (removeOps P f s)))"
    using dB by (simp add: distinct_map_filter)
  show "distinct (map fst (history (removeOps P f s)))"
    using dH by simp
  show "opId op < nextId (removeOps P f s) \<and>
        (opId op, opBuffer op, opTrigger op, opSince op) \<in> set (history (removeOps P f s)) \<and>
        latest (history (removeOps P f s)) (opBuffer op) = Some (opId op)"
    if "op \<in> set (active (removeOps P f s))" for op
    using that consistentD(3,4,5) [OF ok, of op] by simp
  show "i < nextId (removeOps P f s)" if "(i, b, t, t0) \<in> set (history (removeOps P f s))"
    for i b t t0
    using that consistentD(7) [OF ok] by simp
  show "i < nextId (removeOps P f s)" if "(i, eff) \<in> set (journal (removeOps P f s))" for i eff
  proof -
    from that have "(i, eff) \<in> set (journal s) \<or> (i, eff) \<in> set ?added" by simp
    then show ?thesis
    proof
      assume "(i, eff) \<in> set (journal s)"
      then show ?thesis using consistentD(9) [OF ok] by simp
    next
      assume "(i, eff) \<in> set ?added"
      from journal_ids_removed [OF this] show ?thesis
        using consistentD(3) [OF ok] by auto
    qed
  qed
  show "count_list (journal (removeOps P f s)) (i, SaveBuffer b) =
          (if i \<in> opId ` set (active (removeOps P f s)) then 0 else 1)"
    if "(i, b, SaveEvent, t0) \<in> set (history (removeOps P f s))" for i b t0
  proof -
    from that have h: "(i, b, SaveEvent, t0) \<in> set (history s)" by simp
    note old = consistentD(8) [OF ok h]
    have "count_list (journal s @ ?added) (i, SaveBuffer b) =
      (if i \<in> opId ` set (filter (\<lambda>op. \<not> P op) (active s)) then 0 else 1)"
    proof (cases "i \<in> opId ` set (active s)")
      case False
      then have "i \<notin> opId ` set ?gone" by auto
      then have "count_list ?added (i, SaveBuffer b) = 0"
        by (rule count_removed_other)
      moreover have "i \<notin> opId ` set (filter (\<lambda>op. \<not> P op) (active s))"
        using False by auto
      ultimately show ?thesis using old False by simp
    next
      case True
      then obtain op where op: "op \<in> set (active s)" "opId op = i" by auto
      have "(i, opBuffer op, opTrigger op, opSince op) \<in> set (history s)"
        using consistentD(4) [OF ok op(1)] op(2) by simp
      from history_entry_unique [OF dH this h]
      have same: "opBuffer op = b" "opTrigger op = SaveEvent" by simp_all
      show ?thesis
      proof (cases "P op")
        case True
        then have "op \<in> set ?gone" using op by simp
        from count_removed [OF dG this, of f "SaveBuffer b"]
        have "count_list ?added (i, SaveBuffer b) = 1"
          using f [OF op(1) True, of b] same op(2) by simp
        moreover have "i \<notin> opId ` set (filter (\<lambda>op. \<not> P op) (active s))"
          using active_id_unique [OF dI op(1)] op(2) True by auto
        ultimately show ?thesis using old \<open>i \<in> opId ` set (active s)\<close> by simp
      next
        case False
        have "i \<notin> opId ` set ?gone"
          using active_id_unique [OF dI op(1)] op(2) False by auto
        then have "count_list ?added (i, SaveBuffer b) = 0"
          by (rule count_removed_other)
        moreover have "i \<in> opId ` set (filter (\<lambda>op. \<not> P op) (active s))"
          using op False by auto
        ultimately show ?thesis using old \<open>i \<in> opId ` set (active s)\<close> by simp
      qed
    qed
    then show ?thesis by simp
  qed
qed

lemma consistent_unsubscribe: "consistent s \<Longrightarrow> consistent (unsubscribe P s)"
  unfolding unsubscribe_def by (rule consistent_removeOps) auto

lemma consistent_endOps: "consistent s \<Longrightarrow> consistent (endOps P outcome s)"
  unfolding endOps_removeOps by (rule consistent_removeOps) auto

lemma consistent_cong:
  "consistent s \<Longrightarrow> active s' = active s \<Longrightarrow> history s' = history s \<Longrightarrow> journal s' = journal s \<Longrightarrow>
   nextId s' = nextId s \<Longrightarrow> consistent s'"
  by (simp add: consistent_def)

lemma consistent_teardown: "consistent s \<Longrightarrow> consistent (teardown s)"
  unfolding teardown_def by (rule consistent_cong [OF consistent_unsubscribe]) simp_all

lemma consistent_expire: "consistent s \<Longrightarrow> consistent (expire s)"
  unfolding expire_def by (rule consistent_endOps)

lemma consistent_initial: "consistent (initial h)"
  by (simp add: consistent_def initial_def)

lemma latest_Cons [simp]:
  "latest ((i, b, t, t0) # h) b' = (if b' = b then Some i else latest h b')"
  by (simp add: latest_def)

lemma count_handleEvent [simp]:
  "count_list (fst (handleEvent api ps h t e)) (SaveBuffer b) = 0"
  by (simp add: handleEvent_def Let_def split: trigger.splits started.splits prod.splits)

lemma onTrigger_eq:
  "onTrigger api t e s =
     (let s1 = unsubscribe (\<lambda>op. opBuffer op = getBuffer e) s;
          i = nextId s1;
          r = handleEvent api (codeFormatProviders s1) (host s1) t e
      in s1\<lparr>nextId := Suc i,
            history := (i, getBuffer e, t, clock s1) # history s1,
            journal := journal s1 @ map (Pair i)
              (fst r @ (case snd r of
                          Inr w \<Rightarrow> []
                        | Inl outcome \<Rightarrow> fst (handleEventEnd t (getBuffer e) outcome))),
            active := active s1 @
              (case snd r of
                 Inr w \<Rightarrow> [\<lparr>opId = i, opEditor = e, opTrigger = t, opPending = w,
                             opSince = clock s1\<rparr>]
               | Inl outcome \<Rightarrow> [])\<rparr>)"
proof -
  have "snd (handleEventEnd t (getBuffer e) outcome) = None" for outcome
    by simp
  then have esc: "handleEventEnd t (getBuffer e) outcome = (effs, escaped) \<Longrightarrow> escaped = None"
    for outcome effs escaped
    by (metis snd_conv)
  show ?thesis
    by (auto simp: onTrigger_def Let_def split: prod.splits sum.splits dest: esc)
qed

lemma consistent_begin:
  assumes ok: "consistent s"
    and free: "\<And>op. op \<in> set (active s) \<Longrightarrow> opBuffer op \<noteq> b"
    and new: "new = [] \<or> (\<exists>op. new = [op] \<and> opId op = nextId s \<and> opBuffer op = b \<and>
                 opTrigger op = t \<and> opSince op = t0)"
    and effs: "count_list effs (SaveBuffer b) = (if t = SaveEvent \<and> new = [] then 1 else 0)"
  shows "consistent (s\<lparr>nextId := Suc (nextId s), history := (nextId s, b, t, t0) # history s,
               journal := journal s @ map (Pair (nextId s)) effs,
               active := active s @ new\<rparr>)"
    (is "consistent ?s'")
proof (rule consistentI)
  have ids: "opId op < nextId s" if "op \<in> set (active s)" for op
    using consistentD(3) [OF ok that] .
  have fresh': "opId op \<noteq> nextId s" if "op \<in> set (active s)" for op
    using ids [OF that] by simp
  have fresh: "nextId s \<notin> opId ` set (active s)"
  proof
    assume "nextId s \<in> opId ` set (active s)"
    then obtain op where "op \<in> set (active s)" "opId op = nextId s" by auto
    with fresh' [of op] show False by simp
  qed
  have hfresh: "nextId s \<notin> fst ` set (history s)"
    using consistentD(7) [OF ok] by force
  have jfresh: "count_list (journal s) (nextId s, x) = 0" for x
    using consistentD(9) [OF ok, of "nextId s" x] by (auto simp: count_list_0_iff)
  show "distinct (map opId (active ?s'))"
    using consistentD(1) [OF ok] new fresh' by auto
  show "distinct (map opBuffer (active ?s'))"
    using consistentD(2) [OF ok] new free by auto
  show "distinct (map fst (history ?s'))"
    using consistentD(6) [OF ok] hfresh by simp
  show "opId op < nextId ?s' \<and>
        (opId op, opBuffer op, opTrigger op, opSince op) \<in> set (history ?s') \<and>
        latest (history ?s') (opBuffer op) = Some (opId op)"
    if "op \<in> set (active ?s')" for op
  proof -
    from that have "op \<in> set (active s) \<or> op \<in> set new" by simp
    then show ?thesis
    proof
      assume a: "op \<in> set (active s)"
      then show ?thesis
        using consistentD(3,4,5) [OF ok a] free [OF a] by simp
    next
      assume "op \<in> set new"
      with new show ?thesis by auto
    qed
  qed
  show "i < nextId ?s'" if "(i, b', t', t0') \<in> set (history ?s')" for i b' t' t0'
    using that consistentD(7) [OF ok, of i b' t' t0'] by auto
  show "i < nextId ?s'" if "(i, eff) \<in> set (journal ?s')" for i eff
    using that consistentD(9) [OF ok, of i eff] by auto
  show "count_list (journal ?s') (i, SaveBuffer b') =
          (if i \<in> opId ` set (active ?s') then 0 else 1)"
    if h: "(i, b', SaveEvent, t0') \<in> set (history ?s')" for i b' t0'
  proof (cases "i = nextId s")
    case True
    with h hfresh have eq: "b' = b" "t = SaveEvent" by force+
    have "count_list (journal ?s') (i, SaveBuffer b') = (if new = [] then 1 else 0)"
      using True eq effs jfresh by (simp add: count_map_Pair)
    moreover have "(i \<in> opId ` set (active ?s')) = (new \<noteq> [])"
      using True fresh new by auto
    ultimately show ?thesis by simp
  next
    case False
    with h have old: "(i, b', SaveEvent, t0') \<in> set (history s)" by simp
    have "count_list (journal ?s') (i, SaveBuffer b') = count_list (journal s) (i, SaveBuffer b')"
      using False by (simp add: count_map_Pair)
    moreover have "(i \<in> opId ` set (active ?s')) = (i \<in> opId ` set (active s))"
      using False new by auto
    ultimately show ?thesis using consistentD(8) [OF ok old] by simp
  qed
qed

lemma consistent_onTrigger: "consistent s \<Longrightarrow> consistent (onTrigger api t e s)"
proof -
  assume ok: "consistent s"
  let ?s1 = "unsubscribe (\<lambda>op. opBuffer op = getBuffer e) s"
  let ?r = "handleEvent api (codeFormatProviders ?s1) (host ?s1) t e"
  have ok1: "consistent ?s1" using ok by (rule consistent_unsubscribe)
  have free: "\<And>op. op \<in> set (active ?s1) \<Longrightarrow> opBuffer op \<noteq> getBuffer e"
    by (simp add: unsubscribe_def)
  show ?thesis
  proof (cases "snd ?r")
    case (Inl outcome)
    from consistent_begin [OF ok1 free, where new = "[]" and t = t and ?t0.0 = "clock ?s1"
        and effs = "fst ?r @ fst (handleEventEnd t (getBuffer e) outcome)"]
    show ?thesis
      using Inl by (simp add: onTrigger_eq Let_def)
  next
    case (Inr w)
    from consistent_begin [OF ok1 free, where t = t and ?t0.0 = "clock ?s1" and effs = "fst ?r" and new =
        "[\<lparr>opId = nextId ?s1, opEditor = e, opTrigger = t, opPending = w, opSince = clock ?s1\<rparr>]"]
    show ?thesis
      using Inr by (simp add: onTrigger_eq Let_def opBuffer_def)
  qed
qed

lemma find_active:
  "find (\<lambda>op. opId op = i) ops = Some op \<Longrightarrow> op \<in> set ops \<and> opId op = i"
  by (auto simp: find_Some_iff)

lemma consistent_host [simp]: "consistent (s\<lparr>host := h\<rparr>) = consistent s"
  by (simp add: consistent_def)

lemma consistent_clock [simp]: "consistent (s\<lparr>clock := c\<rparr>) = consistent s"
  by (simp add: consistent_def)

lemma consistent_providers [simp]: "consistent (s\<lparr>codeFormatProviders := ps\<rparr>) = consistent s"
  by (simp add: consistent_def)

lemma consistent_onNextTick: "consistent s \<Longrightarrow> consistent (onNextTick api i s)"
proof -
  assume ok: "consistent s"
  show ?thesis
  proof (cases "find (\<lambda>op. opId op = i) (active s)")
    case None
    then show ?thesis using ok by (simp add: onNextTick_def)
  next
    case (Some op)
    note op = find_active [OF Some]
    show ?thesis
    proof (cases "opPending op")
      case (AwaitTick p snapshot character)
      let ?g = "\<lambda>op'. if opId op' = i then op'\<lparr>opPending := AwaitFormatAtPosition snapshot\<rparr> else op'"
      let ?s' = "s\<lparr>active := map ?g (active s),
                    journal := journal s @
                      [(i, Invoke (formatAtPositionCall p character
                                     (readEditor api (host s) (opEditor op))))]\<rparr>"
      have g: "opId (?g x) = opId x" "opBuffer (?g x) = opBuffer x"
        "opTrigger (?g x) = opTrigger x" "opSince (?g x) = opSince x" for x
        by (simp_all add: opBuffer_def)
      have comp: "opId \<circ> ?g = opId" "opBuffer \<circ> ?g = opBuffer"
        by (rule ext, simp add: opBuffer_def)+
      have "set (map opId (map ?g (active s))) = set (map opId (active s))"
        unfolding map_map comp ..
      then have img: "opId ` set (map ?g (active s)) = opId ` set (active s)"
        unfolding set_map .
      have "consistent ?s'"
      proof (rule consistentI)
        show "distinct (map opId (active ?s'))" "distinct (map opBuffer (active ?s'))"
          using consistentD(1,2) [OF ok] by (simp_all add: comp)
        show "distinct (map fst (history ?s'))"
          using consistentD(6) [OF ok] by simp
        show "opId x < nextId ?s' \<and>
              (opId x, opBuffer x, opTrigger x, opSince x) \<in> set (history ?s') \<and>
              latest (history ?s') (opBuffer x) = Some (opId x)"
          if "x \<in> set (active ?s')" for x
        proof -
          from that obtain y where y: "y \<in> set (active s)" "x = ?g y" by auto
          show ?thesis
            using consistentD(3,4,5) [OF ok y(1)] unfolding y(2) g by simp
        qed
        show "j < nextId ?s'" if "(j, b, t, t0) \<in> set (history ?s')" for j b t t0
          using that consistentD(7) [OF ok] by simp
        show "j < nextId ?s'" if "(j, eff) \<in> set (journal ?s')" for j eff
          using that consistentD(9) [OF ok, of j eff] consistentD(3) [OF ok op [THEN conjunct1]] op by auto
        show "count_list (journal ?s') (j, SaveBuffer b) =
                (if j \<in> opId ` set (active ?s') then 0 else 1)"
          if "(j, b, SaveEvent, t0) \<in> set (history ?s')" for j b t0
          using that consistentD(8) [OF ok, of j b t0] img by simp
      qed
      then show ?thesis
        using Some AwaitTick by (simp add: onNextTick_def)
    qed (use ok Some in \<open>simp_all add: onNextTick_def\<close>)
  qed
qed

lemma consistent_onSettlement: "consistent s \<Longrightarrow> consistent (onSettlement api i r s)"
  by (auto simp: onSettlement_def intro!: consistent_endOps split: option.splits)

lemma consistent_step: "consistent s \<Longrightarrow> consistent (step api ev s)"
  by (cases ev)
    (auto intro: consistent_onTrigger consistent_onNextTick consistent_onSettlement consistent_unsubscribe consistent_teardown)

lemma consistent_stepAfter: "consistent s \<Longrightarrow> consistent (stepAfter api dev s)"
  by (simp add: stepAfter_def consistent_step consistent_expire)

lemma run_Nil [simp]: "run api [] s = s"
  by (simp add: run_def)

lemma run_Cons [simp]: "run api (dev # evs) s = run api evs (stepAfter api dev s)"
  by (simp add: run_def)

lemma run_snoc [simp]: "run api (evs @ [dev]) s = stepAfter api dev (run api evs s)"
  by (simp add: run_def)

lemma consistent_run: "consistent s \<Longrightarrow> consistent (run api evs s)"
  by (induction evs arbitrary: s) (simp_all add: consistent_stepAfter)

lemma unsubscribe_fields [simp]:
  "active (unsubscribe P s) = filter (\<lambda>op. \<not> P op) (active s)"
  "history (unsubscribe P s) = history s"
  "nextId (unsubscribe P s) = nextId s"
  "host (unsubscribe P s) = host s"
  "clock (unsubscribe P s) = clock s"
  "subscribed (unsubscribe P s) = subscribed s"
  "codeFormatProviders (unsubscribe P s) = codeFormatProviders s"
  by (simp_all add: unsubscribe_def)

lemma finallySave_entries:
  "concat (map (\<lambda>op. map (Pair (opId op)) (finallySave (opTrigger op) (opBuffer op))) ops) =
   map (\<lambda>op. (opId op, SaveBuffer (opBuffer op))) (filter (\<lambda>op. opTrigger op = SaveEvent) ops)"
  by (induction ops) (auto simp: finallySave_def split: trigger.splits)

lemma journal_unsubscribe:
  "journal (unsubscribe P s) =
     journal s @ map (\<lambda>op. (opId op, SaveBuffer (opBuffer op)))
       (filter (\<lambda>op. P op \<and> opTrigger op = SaveEvent) (active s))"
  by (simp add: unsubscribe_def finallySave_entries conj_commute)

lemma endOps_fields [simp]:
  "active (endOps P outcome s) = filter (\<lambda>op. \<not> P op) (active s)"
  "history (endOps P outcome s) = history s"
  "nextId (endOps P outcome s) = nextId s"
  "host (endOps P outcome s) = host s"
  "clock (endOps P outcome s) = clock s"
  "subscribed (endOps P outcome s) = subscribed s"
  "codeFormatProviders (endOps P outcome s) = codeFormatProviders s"
  by (simp_all add: endOps_removeOps)

lemma teardown_fields [simp]:
  "active (teardown s) = []"
  "history (teardown s) = history s"
  "nextId (teardown s) = nextId s"
  "host (teardown s) = host s"
  "clock (teardown s) = clock s"
  "subscribed (teardown s) = False"
  by (simp_all add: teardown_def)

lemma expire_fields [simp]:
  "active (expire s) =
     filter (\<lambda>op. \<not> (opTrigger op = SaveEvent \<and> opSince op + SAVE_TIMEOUT \<le> clock s)) (active s)"
  "history (expire s) = history s"
  "nextId (expire s) = nextId s"
  "host (expire s) = host s"
  "clock (expire s) = clock s"
  "subscribed (expire s) = subscribed s"
  "codeFormatProviders (expire s) = codeFormatProviders s"
  by (simp_all add: expire_def)

lemma onTrigger_fields [simp]:
  "history (onTrigger api t e s) = (nextId s, getBuffer e, t, clock s) # history s"
  "nextId (onTrigger api t e s) = Suc (nextId s)"
  "host (onTrigger api t e s) = host s"
  "clock (onTrigger api t e s) = clock s"
  "subscribed (onTrigger api t e s) = subscribed s"
  "codeFormatProviders (onTrigger api t e s) = codeFormatProviders s"
  by (simp_all add: onTrigger_eq Let_def)

lemma active_onTrigger:
  "active (onTrigger api t e s) =
     filter (\<lambda>op. opBuffer op \<noteq> getBuffer e) (active s) @
       (case snd (handleEvent api (codeFormatProviders s) (host s) t e) of
          Inr w \<Rightarrow> [\<lparr>opId = nextId s, opEditor = e, opTrigger = t, opPending = w,
                      opSince = clock s\<rparr>]
        | Inl outcome \<Rightarrow> [])"
  by (simp add: onTrigger_eq Let_def split: sum.splits)

lemma onNextTick_fields [simp]:
  "history (onNextTick api i s) = history s"
  "nextId (onNextTick api i s) = nextId s"
  "host (onNextTick api i s) = host s"
  "clock (onNextTick api i s) = clock s"
  "subscribed (onNextTick api i s) = subscribed s"
  "codeFormatProviders (onNextTick api i s) = codeFormatProviders s"
  by (simp_all add: onNextTick_def split: option.splits pending.splits)

lemma active_onNextTick:
  "op \<in> set (active (onNextTick api i s)) \<Longrightarrow>
   \<exists>op'\<in>set (active s). opId op' = opId op \<and> opEditor op' = opEditor op \<and>
      opTrigger op' = opTrigger op \<and> opSince op' = opSince op"
  by (auto simp: onNextTick_def split: option.splits pending.splits if_splits)

lemma onSettlement_fields [simp]:
  "history (onSettlement api i r s) = history s"
  "nextId (onSettlement api i r s) = nextId s"
  "clock (onSettlement api i r s) = clock s"
  "subscribed (onSettlement api i r s) = subscribed s"
  "codeFormatProviders (onSettlement api i r s) = codeFormatProviders s"
  by (simp_all add: onSettlement_def split: option.splits prod.splits)

lemma active_onSettlement: "set (active (onSettlement api i r s)) \<subseteq> set (active s)"
  by (auto simp: onSettlement_def split: option.splits prod.splits)

lemma clock_step [simp]: "clock (step api ev s) = clock s"
  by (cases ev) simp_all

lemma active_step:
  "op \<in> set (active (step api ev s)) \<Longrightarrow>
   (\<exists>op'\<in>set (active s). opId op' = opId op \<and> opEditor op' = opEditor op \<and>
      opTrigger op' = opTrigger op \<and> opSince op' = opSince op) \<or>
   (opId op = nextId s \<and> opSince op = clock s)"
proof (cases ev)
  case (Trigger t e)
  assume "op \<in> set (active (step api ev s))"
  with Trigger show ?thesis
    by (auto simp: active_onTrigger split: if_splits sum.splits)
next
  case (NextTick i)
  assume "op \<in> set (active (step api ev s))"
  with NextTick active_onNextTick [of op api i s] show ?thesis
    by (auto split: if_splits)
next
  case (Settled i r)
  assume "op \<in> set (active (step api ev s))"
  with Settled active_onSettlement [of api i r s] show ?thesis
    by (auto split: if_splits)
qed (auto split: if_splits)

lemma timely_expire: "timely (expire (s\<lparr>clock := c\<rparr>))"
  by (auto simp: timely_def)

lemma timely_step: "timely s \<Longrightarrow> timely (step api ev s)"
  unfolding timely_def
proof
  fix op
  assume t: "\<forall>op\<in>set (active s). opTrigger op = SaveEvent \<longrightarrow> clock s < opSince op + SAVE_TIMEOUT"
    and op: "op \<in> set (active (step api ev s))"
  from active_step [OF op]
  show "opTrigger op = SaveEvent \<longrightarrow> clock (step api ev s) < opSince op + SAVE_TIMEOUT"
    using t by (auto simp: SAVE_TIMEOUT_def)
qed

lemma timely_stepAfter: "timely (stepAfter api dev s)"
  by (simp add: stepAfter_def timely_step timely_expire)

lemma timely_run: "timely s \<Longrightarrow> timely (run api evs s)"
  by (induction evs rule: rev_induct) (simp_all add: timely_stepAfter)

lemma timely_initial: "timely (initial h)"
  by (simp add: timely_def initial_def)

subsection \<open>Who changes a buffer\<close>

lemma texts_writeEditor:
  "texts (writeEditor h e ed) b \<noteq> texts h b \<Longrightarrow> b = getBuffer e"
  by (auto simp: writeEditor_def split: if_splits)

lemma texts_step:
  assumes ok: "consistent s" and changed: "texts (host (step api ev s)) b \<noteq> texts (host s) b"
  shows "(\<exists>h'. ev = HostChanged h') \<or> (\<exists>i r. ev = Settled i r \<and> latest (history s) b = Some i)"
proof (cases ev)
  case (Settled i r)
  show ?thesis
  proof (cases "find (\<lambda>op. opId op = i) (active s)")
    case None
    with changed Settled show ?thesis
      by (simp add: onSettlement_def split: if_splits)
  next
    case (Some op)
    note op = find_active [OF Some]
    from changed Settled Some have "b = getBuffer (opEditor op)"
      by (auto simp: onSettlement_def split: if_splits option.splits dest: texts_writeEditor)
    then have "latest (history s) b = Some i"
      using consistentD(5) [OF ok op [THEN conjunct1]] op by (simp add: opBuffer_def)
    with Settled show ?thesis by simp
  qed
qed (use changed in \<open>auto split: if_splits\<close>)

lemma length_filter_distinct:
  "distinct (map f xs) \<Longrightarrow> length (filter (\<lambda>x. f x = b) xs) \<le> 1"
proof (induction xs)
  case Nil
  then show ?case by simp
next
  case (Cons a xs)
  show ?case
  proof (cases "f a = b")
    case True
    from Cons.prems have "f a \<notin> f ` set xs" by simp
    then have "\<forall>x\<in>set xs. f x \<noteq> f a" by (metis image_eqI)
    with True have "filter (\<lambda>x. f x = b) xs = []"
      by (simp add: filter_empty_conv)
    with True show ?thesis by simp
  next
    case False
    with Cons show ?thesis by simp
  qed
qed

subsection \<open>What a settlement and the other endings do\<close>


lemma filter_key_single:
  "distinct (map f xs) \<Longrightarrow> x \<in> set xs \<Longrightarrow> filter (\<lambda>y. f y = f x) xs = [x]"
proof (induction xs)
  case Nil
  then show ?case by simp
next
  case (Cons a xs)
  show ?case
  proof (cases "a = x")
    case True
    from Cons.prems have "f a \<notin> f ` set xs" by simp
    then have "\<forall>y\<in>set xs. f y \<noteq> f a" by (metis image_eqI)
    with True show ?thesis by (simp add: filter_empty_conv)
  next
    case False
    with Cons.prems have x: "x \<in> set xs" by simp
    from Cons.prems have "f a \<notin> f ` set xs" by simp
    with x have "f a \<noteq> f x" by (metis image_eqI)
    with Cons x show ?thesis by simp
  qed
qed

lemma find_key:
  "distinct (map f xs) \<Longrightarrow> x \<in> set xs \<Longrightarrow> find (\<lambda>y. f y = f x) xs = Some x"
proof (induction xs)
  case Nil
  then show ?case by simp
next
  case (Cons a xs)
  show ?case
  proof (cases "a = x")
    case True
    then show ?thesis by simp
  next
    case False
    with Cons.prems have x: "x \<in> set xs" by simp
    from Cons.prems have "f a \<notin> f ` set xs" by simp
    with x have "f a \<noteq> f x" by (metis image_eqI)
    with Cons x show ?thesis by simp
  qed
qed

lemma journal_endOps:
  "journal (endOps P outcome s) =
     journal s @ concat (map (\<lambda>op. map (Pair (opId op))
       (fst (handleEventEnd (opTrigger op) (opBuffer op) outcome))) (filter P (active s)))"
  by (simp add: endOps_removeOps)

text \<open>What the settlement of a live operation does, once it is known what its callback returns.\<close>

lemma onSettlement_live:
  assumes ids: "distinct (map opId (active s))"
    and op: "op \<in> set (active s)"
    and cb: "onSettled api (opPending op) r (readEditor api (host s) (opEditor op)) =
               Some (outcome, ed')"
  shows "host (onSettlement api (opId op) r s) = writeEditor (host s) (opEditor op) ed'"
    and "active (onSettlement api (opId op) r s) =
           filter (\<lambda>op'. opId op' \<noteq> opId op) (active s)"
    and "journal (onSettlement api (opId op) r s) =
           journal s @ map (Pair (opId op))
             (fst (handleEventEnd (opTrigger op) (opBuffer op) outcome))"
proof -
  note f = find_key [OF ids op] and single = filter_key_single [OF ids op]
  have eq: "onSettlement api (opId op) r s =
      endOps (\<lambda>op'. opId op' = opId op) outcome
        (s\<lparr>host := writeEditor (host s) (opEditor op) ed'\<rparr>)"
    by (simp add: onSettlement_def f cb)
  show "host (onSettlement api (opId op) r s) = writeEditor (host s) (opEditor op) ed'"
    by (simp add: eq)
  show "active (onSettlement api (opId op) r s) =
           filter (\<lambda>op'. opId op' \<noteq> opId op) (active s)"
    by (simp add: eq)
  show "journal (onSettlement api (opId op) r s) =
           journal s @ map (Pair (opId op))
             (fst (handleEventEnd (opTrigger op) (opBuffer op) outcome))"
    by (simp add: eq journal_endOps single)
qed




lemma snapshot_onNextTick:
  "op \<in> set (active (onNextTick api i s)) \<Longrightarrow>
   \<exists>op'\<in>set (active s). opId op' = opId op \<and> snapshotOf (opPending op') = snapshotOf (opPending op)"
  by (auto simp: onNextTick_def split: option.splits pending.splits if_splits
      dest!: find_active)




lemma journal_step_prefix: "\<exists>xs. journal (step api ev s) = journal s @ xs"
proof (cases ev)
  case (Trigger t e)
  then show ?thesis
    by (simp add: onTrigger_eq Let_def journal_unsubscribe)
next
  case (NextTick i)
  then show ?thesis
    by (simp add: onNextTick_def split: option.splits pending.splits)
next
  case (Settled i r)
  then show ?thesis
    by (simp add: onSettlement_def journal_endOps split: option.splits prod.splits)
next
  case (BufferDestroyed b)
  then show ?thesis by (simp add: journal_unsubscribe)
next
  case Disposed
  then show ?thesis by (simp add: teardown_def journal_unsubscribe)
qed simp_all

lemma history_step: "set (history s) \<subseteq> set (history (step api ev s))"
  by (cases ev) auto

lemma journal_onTrigger:
  "journal (onTrigger api t e s) =
     journal (unsubscribe (\<lambda>op. opBuffer op = getBuffer e) s) @
     map (Pair (nextId s))
       (fst (handleEvent api (codeFormatProviders s) (host s) t e) @
        (case snd (handleEvent api (codeFormatProviders s) (host s) t e) of
           Inr w \<Rightarrow> []
         | Inl outcome \<Rightarrow> fst (handleEventEnd t (getBuffer e) outcome)))"
  by (simp add: onTrigger_eq Let_def split: sum.splits)

lemma save_end:
  "fst (handleEventEnd SaveEvent b outcome) =
     (case outcome of None \<Rightarrow> [] | Some err \<Rightarrow> [Warn ''Failed to format code on save:'' err]) @
     [SaveBuffer b]"
  by (simp add: handleEventEnd_effects reportFailure_def finallySave_def split: option.splits)

lemma journal_expire_due:
  assumes "op \<in> set (active s)" "opTrigger op = SaveEvent" "opSince op + SAVE_TIMEOUT \<le> clock s"
  shows "(opId op, Warn ''Failed to format code on save:'' TimeoutError) \<in> set (journal (expire s))"
proof -
  have "op \<in> set (filter (\<lambda>op. opTrigger op = SaveEvent \<and> opSince op + SAVE_TIMEOUT \<le> clock s)
      (active s))"
    using assms by simp
  then show ?thesis
    using assms(2) by (force simp: expire_def journal_endOps save_end)
qed


section \<open>The claims\<close>




text \<open>
  C2. In every state that the manager reaches from its initial state, for every save
  event it has handled: the buffer has been saved exactly once for this event when its
  operation is over, and not yet while the operation lives; the operation lives less than
  \<open>SAVE_TIMEOUT\<close> = 2500 ms after the event. Every save event that arrives while the
  stream is subscribed is handled. Each way a save ends runs the save once, as the last
  effect of the event:
  when the formatting fails at once (no provider), the warning and then the save;
  when the provider's result arrives for the live operation, the edit of the callback,
  the warning if the callback threw or the provider rejected, then the save, and the
  operation is over;
  when a newer event of the same buffer arrives, the save, before anything of the
  newer event;
  when the buffer is destroyed, the save alone;
  when the manager is disposed, the save of every live save operation, and no operation
  lives on;
  when 2500 ms have passed, the timeout warning and the save, and the operation is over.
\<close>

theorem save_runs_once:
  assumes run: "s = run api evs (initial h)"
  shows "((i, b, SaveEvent, t0) \<in> set (history s) \<longrightarrow>
        count_list (journal s) (i, SaveBuffer b) = (if i \<in> opId ` set (active s) then 0 else 1) \<and>
        (i \<in> opId ` set (active s) \<longrightarrow> clock s < t0 + SAVE_TIMEOUT)) \<and>
     (subscribed s \<longrightarrow>
        (nextId s, getBuffer e, SaveEvent, clock s) \<in>
          set (history (step api (Trigger SaveEvent e) s)) \<and>
        (snd (handleEvent api (codeFormatProviders s) (host s) SaveEvent e) = Inl outcome \<longrightarrow>
           nextId s \<notin> opId ` set (active (step api (Trigger SaveEvent e) s)) \<and>
           journal (step api (Trigger SaveEvent e) s) =
             journal (unsubscribe (\<lambda>op. opBuffer op = getBuffer e) s) @
             map (Pair (nextId s))
               (fst (handleEvent api (codeFormatProviders s) (host s) SaveEvent e) @
                (case outcome of
                   None \<Rightarrow> []
                 | Some err \<Rightarrow> [Warn ''Failed to format code on save:'' err]) @
                [SaveBuffer (getBuffer e)]))) \<and>
     (op \<in> set (active s) \<and> opTrigger op = SaveEvent \<and> subscribed s \<longrightarrow>
        (onSettled api (opPending op) r (readEditor api (host s) (opEditor op)) =
           Some (result, ed') \<longrightarrow>
         host (step api (Settled (opId op) r) s) = writeEditor (host s) (opEditor op) ed' \<and>
         active (step api (Settled (opId op) r) s) =
           filter (\<lambda>op'. opId op' \<noteq> opId op) (active s) \<and>
         journal (step api (Settled (opId op) r) s) =
           journal s @ map (Pair (opId op))
             ((case result of
                 None \<Rightarrow> []
               | Some err \<Rightarrow> [Warn ''Failed to format code on save:'' err]) @
              [SaveBuffer (opBuffer op)])) \<and>
        (getBuffer e = opBuffer op \<longrightarrow>
         opId op \<notin> opId ` set (active (step api (Trigger t e) s)) \<and>
         journal (step api (Trigger t e) s) =
           journal s @ (opId op, SaveBuffer (opBuffer op)) #
           map (Pair (nextId s))
             (fst (handleEvent api (codeFormatProviders s) (host s) t e) @
              (case snd (handleEvent api (codeFormatProviders s) (host s) t e) of
                 Inr w \<Rightarrow> []
               | Inl outcome \<Rightarrow> fst (handleEventEnd t (getBuffer e) outcome)))) \<and>
        active (step api (BufferDestroyed (opBuffer op)) s) =
          filter (\<lambda>op'. opBuffer op' \<noteq> opBuffer op) (active s) \<and>
        journal (step api (BufferDestroyed (opBuffer op)) s) =
          journal s @ [(opId op, SaveBuffer (opBuffer op))] \<and>
        active (step api Disposed s) = [] \<and>
        journal (step api Disposed s) =
          journal s @ map (\<lambda>op'. (opId op', SaveBuffer (opBuffer op')))
            (filter (\<lambda>op'. opTrigger op' = SaveEvent) (active s)) \<and>
        (opSince op + SAVE_TIMEOUT \<le> clock s + d \<longrightarrow>
         opId op \<notin> opId ` set (active (stepAfter api (d, ev) s)) \<and>
         (opId op, Warn ''Failed to format code on save:'' TimeoutError) \<in>
           set (journal (stepAfter api (d, ev) s)) \<and>
         count_list (journal (stepAfter api (d, ev) s)) (opId op, SaveBuffer (opBuffer op)) = 1))"
proof -
  have ok: "consistent s"
    unfolding run by (rule consistent_run [OF consistent_initial])
  have timely: "timely s"
    unfolding run by (rule timely_run [OF timely_initial])
  note ids = consistentD(1) [OF ok] and bufs = consistentD(2) [OF ok]
  have inv: "count_list (journal s) (i, SaveBuffer b) = (if i \<in> opId ` set (active s) then 0 else 1) \<and>
        (i \<in> opId ` set (active s) \<longrightarrow> clock s < t0 + SAVE_TIMEOUT)"
    if save: "(i, b, SaveEvent, t0) \<in> set (history s)"
  proof -
    have live: "clock s < t0 + SAVE_TIMEOUT" if "i \<in> opId ` set (active s)"
    proof -
      from that obtain op where op: "op \<in> set (active s)" "opId op = i" by auto
      have "(i, opBuffer op, opTrigger op, opSince op) \<in> set (history s)"
        using consistentD(4) [OF ok op(1)] op(2) by simp
      from history_entry_unique [OF consistentD(6) [OF ok] this save]
      have "opTrigger op = SaveEvent" "opSince op = t0" by simp_all
      with timely op(1) show ?thesis by (auto simp: timely_def)
    qed
    with consistentD(8) [OF ok save] show ?thesis by simp
  qed
  have handled: "(nextId s, getBuffer e, SaveEvent, clock s) \<in>
          set (history (step api (Trigger SaveEvent e) s))" if "subscribed s"
    using that by simp
  have failed: "nextId s \<notin> opId ` set (active (step api (Trigger SaveEvent e) s)) \<and>
           journal (step api (Trigger SaveEvent e) s) =
             journal (unsubscribe (\<lambda>op. opBuffer op = getBuffer e) s) @
             map (Pair (nextId s))
               (fst (handleEvent api (codeFormatProviders s) (host s) SaveEvent e) @
                (case outcome of
                   None \<Rightarrow> []
                 | Some err \<Rightarrow> [Warn ''Failed to format code on save:'' err]) @
                [SaveBuffer (getBuffer e)])"
    if live: "subscribed s"
      and sync: "snd (handleEvent api (codeFormatProviders s) (host s) SaveEvent e) = Inl outcome"
  proof -
    have "nextId s \<notin> opId ` set (active (onTrigger api SaveEvent e s))"
    proof
      assume "nextId s \<in> opId ` set (active (onTrigger api SaveEvent e s))"
      then obtain op' where "op' \<in> set (active s)" "opId op' = nextId s"
        by (auto simp: active_onTrigger sync)
      with consistentD(3) [OF ok this(1)] show False by simp
    qed
    then show ?thesis
      using live by (simp add: journal_onTrigger sync save_end)
  qed
  have over: "(onSettled api (opPending op) r (readEditor api (host s) (opEditor op)) =
           Some (result, ed') \<longrightarrow>
         host (step api (Settled (opId op) r) s) = writeEditor (host s) (opEditor op) ed' \<and>
         active (step api (Settled (opId op) r) s) =
           filter (\<lambda>op'. opId op' \<noteq> opId op) (active s) \<and>
         journal (step api (Settled (opId op) r) s) =
           journal s @ map (Pair (opId op))
             ((case result of
                 None \<Rightarrow> []
               | Some err \<Rightarrow> [Warn ''Failed to format code on save:'' err]) @
              [SaveBuffer (opBuffer op)])) \<and>
        (getBuffer e = opBuffer op \<longrightarrow>
         opId op \<notin> opId ` set (active (step api (Trigger t e) s)) \<and>
         journal (step api (Trigger t e) s) =
           journal s @ (opId op, SaveBuffer (opBuffer op)) #
           map (Pair (nextId s))
             (fst (handleEvent api (codeFormatProviders s) (host s) t e) @
              (case snd (handleEvent api (codeFormatProviders s) (host s) t e) of
                 Inr w \<Rightarrow> []
               | Inl outcome \<Rightarrow> fst (handleEventEnd t (getBuffer e) outcome)))) \<and>
        active (step api (BufferDestroyed (opBuffer op)) s) =
          filter (\<lambda>op'. opBuffer op' \<noteq> opBuffer op) (active s) \<and>
        journal (step api (BufferDestroyed (opBuffer op)) s) =
          journal s @ [(opId op, SaveBuffer (opBuffer op))] \<and>
        active (step api Disposed s) = [] \<and>
        journal (step api Disposed s) =
          journal s @ map (\<lambda>op'. (opId op', SaveBuffer (opBuffer op')))
            (filter (\<lambda>op'. opTrigger op' = SaveEvent) (active s)) \<and>
        (opSince op + SAVE_TIMEOUT \<le> clock s + d \<longrightarrow>
         opId op \<notin> opId ` set (active (stepAfter api (d, ev) s)) \<and>
         (opId op, Warn ''Failed to format code on save:'' TimeoutError) \<in>
           set (journal (stepAfter api (d, ev) s)) \<and>
         count_list (journal (stepAfter api (d, ev) s)) (opId op, SaveBuffer (opBuffer op)) = 1)"
    if op: "op \<in> set (active s)" and save: "opTrigger op = SaveEvent" and live: "subscribed s"
  proof -
    have mine: "filter (\<lambda>op'. opBuffer op' = opBuffer op \<and> opTrigger op' = SaveEvent) (active s) = [op]"
    proof -
      have "filter (\<lambda>op'. opBuffer op' = opBuffer op \<and> opTrigger op' = SaveEvent) (active s) =
          filter (\<lambda>op'. opTrigger op' = SaveEvent) (filter (\<lambda>op'. opBuffer op' = opBuffer op) (active s))"
        by (simp add: conj_commute)
      also have "\<dots> = [op]"
        using save by (simp add: filter_key_single [OF bufs op])
      finally show ?thesis .
    qed
    have settled: "host (step api (Settled (opId op) r) s) = writeEditor (host s) (opEditor op) ed' \<and>
         active (step api (Settled (opId op) r) s) =
           filter (\<lambda>op'. opId op' \<noteq> opId op) (active s) \<and>
         journal (step api (Settled (opId op) r) s) =
           journal s @ map (Pair (opId op))
             ((case result of
                 None \<Rightarrow> []
               | Some err \<Rightarrow> [Warn ''Failed to format code on save:'' err]) @
              [SaveBuffer (opBuffer op)])"
      if cb: "onSettled api (opPending op) r (readEditor api (host s) (opEditor op)) =
           Some (result, ed')"
      using onSettlement_live [OF ids op cb] live save by (simp add: save_end)
    have superseded: "opId op \<notin> opId ` set (active (step api (Trigger t e) s)) \<and>
         journal (step api (Trigger t e) s) =
           journal s @ (opId op, SaveBuffer (opBuffer op)) #
           map (Pair (nextId s))
             (fst (handleEvent api (codeFormatProviders s) (host s) t e) @
              (case snd (handleEvent api (codeFormatProviders s) (host s) t e) of
                 Inr w \<Rightarrow> []
               | Inl outcome \<Rightarrow> fst (handleEventEnd t (getBuffer e) outcome)))"
      if same: "getBuffer e = opBuffer op"
    proof -
      have gone: "opId op \<notin> opId ` set (active (onTrigger api t e s))"
      proof
        assume "opId op \<in> opId ` set (active (onTrigger api t e s))"
        then obtain op' where op': "op' \<in> set (active (onTrigger api t e s))"
          "opId op' = opId op" by auto
        from op'(1) have "(op' \<in> set (active s) \<and> opBuffer op' \<noteq> getBuffer e) \<or>
            opId op' = nextId s"
          by (auto simp: active_onTrigger split: sum.splits)
        then show False
        proof
          assume a: "op' \<in> set (active s) \<and> opBuffer op' \<noteq> getBuffer e"
          with active_id_unique [OF ids _ op op'(2)] have "op' = op" by simp
          with a same show False by simp
        next
          assume "opId op' = nextId s"
          with op'(2) consistentD(3) [OF ok op] show False by simp
        qed
      qed
      have "journal (unsubscribe (\<lambda>op'. opBuffer op' = getBuffer e) s) =
          journal s @ [(opId op, SaveBuffer (opBuffer op))]"
        by (simp add: journal_unsubscribe same mine)
      with gone live show ?thesis by (simp add: journal_onTrigger)
    qed
    have destroyed: "active (step api (BufferDestroyed (opBuffer op)) s) =
          filter (\<lambda>op'. opBuffer op' \<noteq> opBuffer op) (active s) \<and>
        journal (step api (BufferDestroyed (opBuffer op)) s) =
          journal s @ [(opId op, SaveBuffer (opBuffer op))]"
      using live by (simp add: journal_unsubscribe mine)
    have disposed: "active (step api Disposed s) = [] \<and>
        journal (step api Disposed s) =
          journal s @ map (\<lambda>op'. (opId op', SaveBuffer (opBuffer op')))
            (filter (\<lambda>op'. opTrigger op' = SaveEvent) (active s))"
      by (simp add: teardown_def journal_unsubscribe)
    have timeout: "opId op \<notin> opId ` set (active (stepAfter api (d, ev) s)) \<and>
         (opId op, Warn ''Failed to format code on save:'' TimeoutError) \<in>
           set (journal (stepAfter api (d, ev) s)) \<and>
         count_list (journal (stepAfter api (d, ev) s)) (opId op, SaveBuffer (opBuffer op)) = 1"
      if due: "opSince op + SAVE_TIMEOUT \<le> clock s + d"
    proof -
      let ?s1 = "s\<lparr>clock := clock s + d\<rparr>"
      let ?s2 = "expire ?s1"
      let ?s3 = "step api ev ?s2"
      have s3: "stepAfter api (d, ev) s = ?s3"
        by (simp add: stepAfter_def)
      have ok3: "consistent ?s3"
        using ok by (simp add: consistent_step consistent_expire)
      have gone2: "opId op' \<noteq> opId op" if "op' \<in> set (active ?s2)" for op'
      proof
        assume same: "opId op' = opId op"
        from that have "op' \<in> set (active s)" by simp
        from active_id_unique [OF ids this op same] have "op' = op" .
        with that save due show False by simp
      qed
      have gone3: "opId op \<notin> opId ` set (active ?s3)"
      proof
        assume "opId op \<in> opId ` set (active ?s3)"
        then obtain op' where op': "op' \<in> set (active ?s3)" "opId op' = opId op" by auto
        from active_step [OF op'(1)] show False
        proof
          assume "\<exists>x\<in>set (active ?s2). opId x = opId op' \<and> opEditor x = opEditor op' \<and>
            opTrigger x = opTrigger op' \<and> opSince x = opSince op'"
          with gone2 op'(2) show False by auto
        next
          assume "opId op' = nextId ?s2 \<and> opSince op' = clock ?s2"
          with op'(2) consistentD(3) [OF ok op] show False by simp
        qed
      qed
      have "(opId op, Warn ''Failed to format code on save:'' TimeoutError) \<in> set (journal ?s2)"
        by (rule journal_expire_due) (use op save due in simp_all)
      moreover obtain xs where "journal ?s3 = journal ?s2 @ xs"
        using journal_step_prefix [of api ev ?s2] by auto
      ultimately have warn: "(opId op, Warn ''Failed to format code on save:'' TimeoutError) \<in>
           set (journal ?s3)"
        by simp
      have "(opId op, opBuffer op, SaveEvent, opSince op) \<in> set (history s)"
        using consistentD(4) [OF ok op] save by simp
      then have "(opId op, opBuffer op, SaveEvent, opSince op) \<in> set (history ?s3)"
        using history_step [of ?s2 api ev] by auto
      from consistentD(8) [OF ok3 this] gone3
      have "count_list (journal ?s3) (opId op, SaveBuffer (opBuffer op)) = 1" by simp
      with gone3 warn show ?thesis unfolding s3 by simp
    qed
    show ?thesis
      using settled superseded destroyed disposed timeout by blast
  qed
  show ?thesis
    using inv handled failed over by blast
qed

theorem save_runs_once_witness:
  "(0, 0, SaveEvent, 0) \<in> set (history (run exampleApi saveScenario (initial exampleHost))) \<and>
   (1, 0, SaveEvent, 150) \<in> set (history (run exampleApi saveScenario (initial exampleHost))) \<and>
   (2, 0, SaveEvent, 300) \<in> set (history (run exampleApi saveScenario (initial exampleHost))) \<and>
   (3, 0, SaveEvent, 2800) \<in> set (history (run exampleApi saveScenario (initial exampleHost))) \<and>
   (4, 0, SaveEvent, 2830) \<in> set (history (run exampleApi saveScenario (initial exampleHost))) \<and>
   (5, 0, SaveEvent, 2850) \<in> set (history (run exampleApi saveScenario (initial exampleHost))) \<and>
   map opId (active (run exampleApi saveScenario (initial exampleHost))) = [5] \<and>
   count_list (journal (run exampleApi saveScenario (initial exampleHost))) (0, SaveBuffer 0) = 1 \<and>
   count_list (journal (run exampleApi saveScenario (initial exampleHost))) (1, SaveBuffer 0) = 1 \<and>
   count_list (journal (run exampleApi saveScenario (initial exampleHost))) (2, SaveBuffer 0) = 1 \<and>
   count_list (journal (run exampleApi saveScenario (initial exampleHost))) (3, SaveBuffer 0) = 1 \<and>
   count_list (journal (run exampleApi saveScenario (initial exampleHost))) (4, SaveBuffer 0) = 1 \<and>
   count_list (journal (run exampleApi saveScenario (initial exampleHost))) (5, SaveBuffer 0) = 0 \<and>
   map opId (active (run exampleApi (take 2 saveScenario) (initial exampleHost))) = [0] \<and>
   journal (step exampleApi (Settled 0 (Formatted None ''y''))
       (run exampleApi (take 2 saveScenario) (initial exampleHost))) =
     journal (run exampleApi (take 2 saveScenario) (initial exampleHost)) @ [(0, SaveBuffer 0)] \<and>
   active (step exampleApi (Settled 0 (Formatted None ''y''))
       (run exampleApi (take 2 saveScenario) (initial exampleHost))) = [] \<and>
   texts (host (run exampleApi (take 3 saveScenario) (initial exampleHost))) 0 = ''y'' \<and>
   drop 1 (journal (run exampleApi (take 3 saveScenario) (initial exampleHost))) =
     [(0, SaveBuffer 0)] \<and>
   drop 3 (journal (run exampleApi (take 5 saveScenario) (initial exampleHost))) =
     [(1, Warn ''Failed to format code on save:'' (Rejected ''down'')), (1, SaveBuffer 0)] \<and>
   drop 6 (journal (run exampleApi (take 7 saveScenario) (initial exampleHost))) =
     [(2, Warn ''Failed to format code on save:'' TimeoutError), (2, SaveBuffer 0),
      (3, Invoke (FormatEntireFile providerHigh (getRange exampleApi ''y'')))] \<and>
   drop 9 (journal (run exampleApi (take 8 saveScenario) (initial exampleHost))) =
     [(3, SaveBuffer 0)] \<and>
   drop 10 (journal (run exampleApi (take 10 saveScenario) (initial exampleHost))) =
     [(4, Warn ''Failed to format code on save:'' (NoProviders ''source.js'')), (4, SaveBuffer 0)] \<and>
   drop 1 (journal (run exampleApi disposeScenario (initial exampleHost))) = [(0, SaveBuffer 0)] \<and>
   active (run exampleApi disposeScenario (initial exampleHost)) = []"
proof -
  let ?s = "run exampleApi saveScenario (initial exampleHost)"
  let ?s2 = "run exampleApi (take 2 saveScenario) (initial exampleHost)"
  let ?r = "Formatted None ''y''"
  have h: "history ?s =
     [(5, 0, SaveEvent, 2850), (4, 0, SaveEvent, 2830), (3, 0, SaveEvent, 2800),
      (2, 0, SaveEvent, 300), (1, 0, SaveEvent, 150), (0, 0, SaveEvent, 0)]"
    by code_simp
  have a: "map opId (active ?s) = [5]"
    by code_simp
  then have ids: "opId ` set (active ?s) = {5}"
    by (metis list.set_map list.simps(15) empty_set)
  have m: "(0, 0, SaveEvent, 0) \<in> set (history ?s)" "(1, 0, SaveEvent, 150) \<in> set (history ?s)"
    "(2, 0, SaveEvent, 300) \<in> set (history ?s)" "(3, 0, SaveEvent, 2800) \<in> set (history ?s)"
    "(4, 0, SaveEvent, 2830) \<in> set (history ?s)" "(5, 0, SaveEvent, 2850) \<in> set (history ?s)"
    unfolding h by simp_all
  note inv = save_runs_once [OF refl, where api = exampleApi and evs = saveScenario
      and h = exampleHost, THEN conjunct1, rule_format, THEN conjunct1]
  have counts:
    "count_list (journal ?s) (0, SaveBuffer 0) = 1" "count_list (journal ?s) (1, SaveBuffer 0) = 1"
    "count_list (journal ?s) (2, SaveBuffer 0) = 1" "count_list (journal ?s) (3, SaveBuffer 0) = 1"
    "count_list (journal ?s) (4, SaveBuffer 0) = 1" "count_list (journal ?s) (5, SaveBuffer 0) = 0"
    using inv [OF m(1)] inv [OF m(2)] inv [OF m(3)] inv [OF m(4)] inv [OF m(5)] inv [OF m(6)]
    unfolding ids by simp_all
  have ops: "map (\<lambda>op. (opId op, opPending op, opEditor op, opTrigger op)) (active ?s2) =
      [(0, AwaitFormatEntireFile ''x'', (0, 0), SaveEvent)]"
    by code_simp
  have live: "subscribed ?s2" and typed: "texts (host ?s2) 0 = ''x''"
    by code_simp+
  from ops obtain op where op: "active ?s2 = [op]" "opId op = 0"
    "opPending op = AwaitFormatEntireFile ''x''" "opEditor op = (0, 0)" "opTrigger op = SaveEvent"
    by (cases "active ?s2") auto
  have buf: "opBuffer op = 0"
    by (simp add: opBuffer_def getBuffer_def op)
  have cb: "onSettled exampleApi (opPending op) ?r (readEditor exampleApi (host ?s2) (opEditor op)) =
      Some (None, snd (onFormatEntireFile exampleApi ''x''
        (readEditor exampleApi (host ?s2) (opEditor op)) None ''y''))"
    using typed
    by (simp add: op onFormatEntireFile_def checkContentsAreSame_def readEditor_def getBuffer_def
        Let_def)
  have hyp: "op \<in> set (active ?s2) \<and> opTrigger op = SaveEvent \<and> subscribed ?s2"
    using op live by simp
  note settled = save_runs_once [OF refl, where api = exampleApi and evs = "take 2 saveScenario"
      and h = exampleHost and op = op and r = ?r, THEN conjunct2, THEN conjunct2, rule_format,
      OF hyp, THEN conjunct1, rule_format, OF cb]
  have s1: "journal (step exampleApi (Settled 0 ?r) ?s2) = journal ?s2 @ [(0, SaveBuffer 0)]"
    "active (step exampleApi (Settled 0 ?r) ?s2) = []"
    using settled op buf by simp_all
  have a2: "map opId (active ?s2) = [0]"
    using op by simp
  have c1: "texts (host (run exampleApi (take 3 saveScenario) (initial exampleHost))) 0 = ''y''"
    by code_simp
  have c2: "drop 1 (journal (run exampleApi (take 3 saveScenario) (initial exampleHost))) =
     [(0, SaveBuffer 0)]"
    by code_simp
  have c3: "drop 3 (journal (run exampleApi (take 5 saveScenario) (initial exampleHost))) =
     [(1, Warn ''Failed to format code on save:'' (Rejected ''down'')), (1, SaveBuffer 0)]"
    by code_simp
  have c4: "drop 6 (journal (run exampleApi (take 7 saveScenario) (initial exampleHost))) =
     [(2, Warn ''Failed to format code on save:'' TimeoutError), (2, SaveBuffer 0),
      (3, Invoke (FormatEntireFile providerHigh (getRange exampleApi ''y'')))]"
    by code_simp
  have c5: "drop 9 (journal (run exampleApi (take 8 saveScenario) (initial exampleHost))) =
     [(3, SaveBuffer 0)]"
    by code_simp
  have c6: "drop 10 (journal (run exampleApi (take 10 saveScenario) (initial exampleHost))) =
     [(4, Warn ''Failed to format code on save:'' (NoProviders ''source.js'')), (4, SaveBuffer 0)]"
    by code_simp
  have c7: "drop 1 (journal (run exampleApi disposeScenario (initial exampleHost))) =
      [(0, SaveBuffer 0)]"
    "active (run exampleApi disposeScenario (initial exampleHost)) = []"
    by code_simp+
  show ?thesis
    using m a counts a2 s1 c1 c2 c3 c4 c5 c6 c7 by blast
qed

text \<open>
  C3. In every state that the manager reaches from its initial state: at most one
  operation lives for each buffer, and a live operation belongs to the latest event of
  its buffer; after a new event of a buffer the only operation that can live for this
  buffer is the one of this event. The text of a buffer changes in a step only by the host
  itself or by the settlement of the operation of the latest event of that buffer. The
  destruction of a buffer removes its operation, leaves the host as it is and reports no
  failure: the only effect is the save that a save operation still owes.
\<close>

theorem one_operation_per_buffer:
  assumes run: "s = run api evs (initial h)"
  shows "length (filter (\<lambda>op. opBuffer op = b) (active s)) \<le> 1 \<and>
     (\<forall>op\<in>set (active s). latest (history s) (opBuffer op) = Some (opId op)) \<and>
     (subscribed s \<longrightarrow>
        (\<forall>op\<in>set (active (step api (Trigger t e) s)).
           opBuffer op = getBuffer e \<longrightarrow> opId op = nextId s)) \<and>
     (texts (host (stepAfter api (d, ev) s)) b \<noteq> texts (host s) b \<longrightarrow>
        (\<exists>h'. ev = HostChanged h') \<or>
        (\<exists>i r. ev = Settled i r \<and> latest (history s) b = Some i)) \<and>
     (subscribed s \<longrightarrow>
        active (step api (BufferDestroyed b) s) = filter (\<lambda>op. opBuffer op \<noteq> b) (active s) \<and>
        host (step api (BufferDestroyed b) s) = host s \<and>
        journal (step api (BufferDestroyed b) s) =
          journal s @ map (\<lambda>op. (opId op, SaveBuffer (opBuffer op)))
            (filter (\<lambda>op. opBuffer op = b \<and> opTrigger op = SaveEvent) (active s)))"
proof -
  have ok: "consistent s"
    unfolding run by (rule consistent_run [OF consistent_initial])
  have one: "length (filter (\<lambda>op. opBuffer op = b) (active s)) \<le> 1"
    using consistentD(2) [OF ok] by (rule length_filter_distinct)
  have last: "\<forall>op\<in>set (active s). latest (history s) (opBuffer op) = Some (opId op)"
    using consistentD(5) [OF ok] by simp
  have newer: "opId op = nextId s"
    if "op \<in> set (active (step api (Trigger t e) s))" "opBuffer op = getBuffer e" "subscribed s"
    for op
    using that by (auto simp: active_onTrigger split: sum.splits)
  have commit: "(\<exists>h'. ev = HostChanged h') \<or>
        (\<exists>i r. ev = Settled i r \<and> latest (history s) b = Some i)"
    if "texts (host (stepAfter api (d, ev) s)) b \<noteq> texts (host s) b"
  proof -
    let ?s' = "expire (s\<lparr>clock := clock s + d\<rparr>)"
    have "consistent ?s'" using ok by (simp add: consistent_expire)
    moreover have "texts (host (step api ev ?s')) b \<noteq> texts (host ?s') b"
      using that by (simp add: stepAfter_def)
    ultimately show ?thesis
      using texts_step [of ?s' api ev b] by simp
  qed
  show ?thesis
    using one last newer commit by (simp add: journal_unsubscribe)
qed

theorem one_operation_per_buffer_witness:
  "map opId (active (run exampleApi (take 3 typingScenario) (initial exampleHost))) = [0] \<and>
   map opId (active (run exampleApi (take 5 typingScenario) (initial exampleHost))) = [1] \<and>
   latest (history (run exampleApi (take 5 typingScenario) (initial exampleHost))) 0 = Some 1 \<and>
   texts (host (run exampleApi typingScenario (initial exampleHost))) 0 = ''x'' \<and>
   texts (host (run exampleApi
       (typingScenario @
        [(5, Settled 1 (Edits [TextEdit (Range \<lparr>row = 0, column = 0\<rparr> \<lparr>row = 0, column = 1\<rparr>)
                                 ''second'']))])
       (initial exampleHost))) 0 = ''second'' \<and>
   length (filter (\<lambda>op. opBuffer op = 0)
     (active (run exampleApi (take 5 typingScenario) (initial exampleHost)))) = 1"
proof -
  let ?s = "run exampleApi (take 5 typingScenario) (initial exampleHost)"
  have a: "map opId (active (run exampleApi (take 3 typingScenario) (initial exampleHost))) = [0]"
    by code_simp
  have b: "map opId (active ?s) = [1]"
    by code_simp
  have c: "texts (host (run exampleApi typingScenario (initial exampleHost))) 0 = ''x''"
    by code_simp
  have c': "texts (host (run exampleApi
       (typingScenario @
        [(5, Settled 1 (Edits [TextEdit (Range \<lparr>row = 0, column = 0\<rparr> \<lparr>row = 0, column = 1\<rparr>)
                                 ''second'']))])
       (initial exampleHost))) 0 = ''second''"
    by code_simp
  have d: "map opBuffer (active ?s) = [0]"
    by code_simp
  from b d obtain op where op: "active ?s = [op]" "opId op = 1" "opBuffer op = 0"
    by (cases "active ?s") auto
  note inst = one_operation_per_buffer [OF refl, where api = exampleApi
      and evs = "take 5 typingScenario" and h = exampleHost and b = 0]
  from inst [THEN conjunct2, THEN conjunct1] op
  have "latest (history ?s) 0 = Some 1" by simp
  moreover from inst [THEN conjunct1] op
  have "length (filter (\<lambda>op. opBuffer op = 0) (active ?s)) = 1" by simp
  ultimately show ?thesis using a b c c' by simp
qed

text \<open>
  C4, as the code has it. The sort gets a comparator that returns true or false, so
  never a negative number. Under an engine whose sort moves an element only on a
  negative result (\<open>sortBelow\<close>), two matching providers of priorities 1 and 5,
  registered in this order, are resolved in this order: the provider of priority 1 is
  selected first. The same engine, given the comparator that returns a number, puts the
  priority 5 first.
\<close>

theorem resolve_priority_ignored:
  "getMatchingProvidersForScopeName (api\<lparr>arraySort := sortBelow\<rparr>)
     [providerLow, providerHigh] ''source.js'' = [providerLow, providerHigh] \<and>
   inclusionPriority providerLow = 1 \<and> inclusionPriority providerHigh = 5 \<and>
   sortBelow byPriorityDescending [providerLow, providerHigh] = [providerHigh, providerLow]"
  by (simp add: resolve_sortBelow providerLow_matches providerHigh_matches)
     (simp add: providerLow_def providerHigh_def sortBelow_def byPriorityDescending_def)

text \<open>
  C5, as the code has it. The disposer of a provider removes that provider and every
  provider registered after it: after registering \<open>providerLow\<close> and then
  \<open>providerHigh\<close>, the disposer of \<open>providerLow\<close> leaves the registry empty; of three
  registrations 1, 2, 3, the disposer of 2 leaves only 1.
\<close>

theorem disposer_removes_later_providers:
  "removeProvider (addProvider (addProvider [] providerLow) providerHigh) providerLow = [] \<and>
   removeProvider (addProvider (addProvider (addProvider [] (1::nat)) 2) 3) 2 = [1]"
  by (simp add: removeProvider_def addProvider_def)

text \<open>
  C6. The on-type heuristic rejects an edit whose old text is not empty, rejects one
  whose old and new texts are both empty, rejects an inserted text of more than one
  character that is not a bracket pair of the bracket matcher, and accepts every other
  edit. When the on-type path goes on to a provider, the inserted text is not empty, the
  trigger character is its last character, and it is passed to \<open>formatAtPosition\<close>
  with the cursor position moved one column back.
\<close>

theorem onType_trigger:
  "(oldText ev \<noteq> [] \<longrightarrow> \<not> shouldFormatOnType h ev) \<and>
   (oldText ev = [] \<and> newText ev = [] \<longrightarrow> \<not> shouldFormatOnType h ev) \<and>
   (length (newText ev) > 1 \<and> \<not> isBracketPair h (newText ev) \<longrightarrow> \<not> shouldFormatOnType h ev) \<and>
   (oldText ev = [] \<and> newText ev \<noteq> [] \<and>
    \<not> (length (newText ev) > 1 \<and> \<not> isBracketPair h (newText ev))
      \<longrightarrow> shouldFormatOnType h ev) \<and>
   (formatCodeOnTypeInTextEditor api ps h ed ev = Awaiting (p, snapshot, ch)
      \<longrightarrow> shouldFormatOnType h ev \<and> newText ev \<noteq> [] \<and> ch = last (newText ev) \<and>
          formatAtPositionCall p ch ed' =
            FormatAtPosition p \<lparr>row = row (cursor ed'), column = column (cursor ed') - 1\<rparr>
              (last (newText ev)))"
  by (auto simp: shouldFormatOnType_def formatCodeOnTypeInTextEditor_def formatAtPositionCall_def
      translate_def Let_def split: if_splits list.splits)

theorem onType_trigger_witness:
  "shouldFormatOnType exampleHost \<lparr>oldText = [], newText = ''x''\<rparr> \<and>
   \<not> shouldFormatOnType exampleHost \<lparr>oldText = ''a'', newText = []\<rparr> \<and>
   \<not> shouldFormatOnType exampleHost \<lparr>oldText = [], newText = []\<rparr> \<and>
   \<not> shouldFormatOnType exampleHost \<lparr>oldText = [], newText = ''ab''\<rparr> \<and>
   shouldFormatOnType exampleHost \<lparr>oldText = [], newText = ''{}''\<rparr> \<and>
   formatCodeOnTypeInTextEditor exampleApi [providerLow] exampleHost
       (readEditor exampleApi exampleHost (0, 0)) \<lparr>oldText = [], newText = ''{}''\<rparr> =
     Awaiting (providerLow, ''x'', CHR ''}'') \<and>
   formatAtPositionCall providerLow (CHR ''}'') (readEditor exampleApi exampleHost (0, 0)) =
     FormatAtPosition providerLow \<lparr>row = 0, column = 0\<rparr> (CHR ''}'')"
proof -
  have pair: "isBracketPair exampleHost ''{}''" and nopair: "\<not> isBracketPair exampleHost ''ab''"
    by (simp_all add: isBracketPair_def exampleHost_def)
  have start: "formatCodeOnTypeInTextEditor exampleApi [providerLow] exampleHost
       (readEditor exampleApi exampleHost (0, 0)) \<lparr>oldText = [], newText = ''{}''\<rparr> =
     Awaiting (providerLow, ''x'', CHR ''}'')"
  proof -
    have ed: "scopeName (readEditor exampleApi exampleHost (0, 0)) = ''source.js''"
      "contents (readEditor exampleApi exampleHost (0, 0)) = ''x''"
      by (simp_all add: readEditor_def exampleHost_def)
    have cfg: "formatOnType exampleHost" "arraySort exampleApi = sortAbove"
      by (simp_all add: exampleHost_def exampleApi_def)
    have "formatAtPosition providerLow"
      by (simp add: providerLow_def)
    then show ?thesis
      using pair
      by (simp add: formatCodeOnTypeInTextEditor_def shouldFormatOnType_def ed cfg
          getMatchingProvidersForScopeName_def providerLow_matches sortAbove_def)
  qed
  show ?thesis
    using onType_trigger [of "\<lparr>oldText = [], newText = ''x''\<rparr>" exampleHost]
      onType_trigger [of "\<lparr>oldText = ''a'', newText = []\<rparr>" exampleHost]
      onType_trigger [of "\<lparr>oldText = [], newText = []\<rparr>" exampleHost]
      onType_trigger [of "\<lparr>oldText = [], newText = ''ab''\<rparr>" exampleHost]
      onType_trigger [of "\<lparr>oldText = [], newText = ''{}''\<rparr>" exampleHost exampleApi
        "[providerLow]" "readEditor exampleApi exampleHost (0, 0)" providerLow "''x''" "CHR ''}''"
        "readEditor exampleApi exampleHost (0, 0)"]
      pair nopair start
    by (simp add: readEditor_def exampleHost_def)
qed

text \<open>
  C7. For a selection whose start is not after its end, as the host's ranges are: when
  the selection is not empty the format range starts at column 0 of the row of its
  start, and ends at the end of the selection when that is at column 0, otherwise at
  column 0 of the row after it; when the selection is empty the format range is the range
  of the whole buffer. Every call that the command path makes carries this range.
\<close>

theorem formatRange_normalized:
  assumes "isLessThanOrEqual (range_start (selection ed)) (range_end (selection ed))"
  shows "formatRange ed =
     (if isEmpty (selection ed) then bufferRange ed
      else \<lparr>range_start = \<lparr>row = row (range_start (selection ed)), column = 0\<rparr>,
            range_end = (if column (range_end (selection ed)) = 0 then range_end (selection ed)
                         else \<lparr>row = row (range_end (selection ed)) + 1, column = 0\<rparr>)\<rparr>) \<and>
     (formatCodeInTextEditor api ps ed = Awaiting c \<longrightarrow>
        (\<exists>p. c = FormatCode p (formatRange ed) \<or> c = FormatEntireFile p (formatRange ed)))"
  using assms
  by (auto simp: formatRange_def Range_def isLessThanOrEqual_def Let_def isEmpty_def
      formatCodeInTextEditor_def split: list.splits if_splits)

theorem formatRange_normalized_witness:
  "isLessThanOrEqual (range_start (selection (selectionIn 2 5 2 10)))
     (range_end (selection (selectionIn 2 5 2 10))) \<and>
   formatRange (selectionIn 2 5 2 10) =
     \<lparr>range_start = \<lparr>row = 2, column = 0\<rparr>, range_end = \<lparr>row = 3, column = 0\<rparr>\<rparr> \<and>
   isLessThanOrEqual (range_start (selection (selectionIn 3 2 4 0)))
     (range_end (selection (selectionIn 3 2 4 0))) \<and>
   formatRange (selectionIn 3 2 4 0) =
     \<lparr>range_start = \<lparr>row = 3, column = 0\<rparr>, range_end = \<lparr>row = 4, column = 0\<rparr>\<rparr> \<and>
   formatRange (selectionIn 1 1 1 1) =
     \<lparr>range_start = \<lparr>row = 0, column = 0\<rparr>, range_end = \<lparr>row = 9, column = 0\<rparr>\<rparr>"
proof -
  have a: "isLessThanOrEqual (range_start (selection (selectionIn 2 5 2 10)))
     (range_end (selection (selectionIn 2 5 2 10)))"
    and b: "isLessThanOrEqual (range_start (selection (selectionIn 3 2 4 0)))
     (range_end (selection (selectionIn 3 2 4 0)))"
    and c: "isLessThanOrEqual (range_start (selection (selectionIn 1 1 1 1)))
     (range_end (selection (selectionIn 1 1 1 1)))"
    by (simp_all add: selectionIn_def isLessThanOrEqual_def)
  show ?thesis
    using a b formatRange_normalized [OF a] formatRange_normalized [OF b]
      formatRange_normalized [OF c]
    by (simp add: selectionIn_def isEmpty_def)
qed

text \<open>
  C8. For a sort that permutes its input and a subscribed stream: when no registered
  provider matches the scope of the editor and implements \<open>formatCode\<close> or
  \<open>formatEntireFile\<close>, the command path fails with the no-provider error; handling the
  command leaves the host (so every buffer) as it is, adds one error notification with
  the message of the error, leaves the stream subscribed and no operation living for the
  buffer.
\<close>

theorem command_without_provider:
  assumes perm: "\<And>cmp xs. mset (arraySort api cmp xs) = mset xs"
    and none: "\<forall>p\<in>set (codeFormatProviders s).
                 matchesScope (grammar (views (host s) e)) p \<longrightarrow>
                 \<not> formatCode p \<and> \<not> formatEntireFile p"
    and live: "subscribed s"
  shows "formatCodeInTextEditor api (codeFormatProviders s) (readEditor api (host s) e) =
       Failed (NoProviders (grammar (views (host s) e))) \<and>
     host (step api (Trigger CommandEvent e) s) = host s \<and>
     journal (step api (Trigger CommandEvent e) s) =
       journal (unsubscribe (\<lambda>op. opBuffer op = getBuffer e) s) @
       [(nextId s, AddError ''Failed to format code''
           (''No Code-Format providers registered for scope: '' @ grammar (views (host s) e)))] \<and>
     subscribed (step api (Trigger CommandEvent e) s) \<and>
     filter (\<lambda>op. opBuffer op = getBuffer e) (active (step api (Trigger CommandEvent e) s)) = []"
proof -
  let ?ed = "readEditor api (host s) e"
  have scope: "scopeName ?ed = grammar (views (host s) e)"
    by (simp add: readEditor_def)
  have fail: "formatCodeInTextEditor api (codeFormatProviders s) ?ed =
      Failed (NoProviders (grammar (views (host s) e)))"
    using capable_nil [OF perm, of "codeFormatProviders s" "scopeName ?ed"] none
    by (simp add: formatCodeInTextEditor_def scope)
  then have ev: "handleEvent api (codeFormatProviders s) (host s) CommandEvent e =
      ([], Inl (Some (NoProviders (grammar (views (host s) e)))))"
    by (simp add: handleEvent_def)
  have "journal (onTrigger api CommandEvent e s) =
       journal (unsubscribe (\<lambda>op. opBuffer op = getBuffer e) s) @
       [(nextId s, AddError ''Failed to format code''
           (''No Code-Format providers registered for scope: '' @ grammar (views (host s) e)))]"
    by (simp add: onTrigger_eq Let_def ev handleEventEnd_effects reportFailure_def finallySave_def)
  moreover have "filter (\<lambda>op. opBuffer op = getBuffer e) (active (onTrigger api CommandEvent e s)) = []"
    by (simp add: active_onTrigger ev filter_empty_conv)
  ultimately show ?thesis
    using fail live by simp
qed

theorem command_without_provider_witness:
  "journal (step exampleApi (Trigger CommandEvent (0, 0)) (initial exampleHost)) =
     [(0, AddError ''Failed to format code''
            ''No Code-Format providers registered for scope: source.js'')] \<and>
   subscribed (step exampleApi (Trigger CommandEvent (0, 0)) (initial exampleHost)) \<and>
   texts (host (step exampleApi (Trigger CommandEvent (0, 0)) (initial exampleHost))) 0 = ''x'' \<and>
   active (step exampleApi (Trigger CommandEvent (0, 0)) (initial exampleHost)) = []"
proof -
  let ?s = "initial exampleHost"
  have none: "\<forall>p\<in>set (codeFormatProviders ?s).
                 matchesScope (grammar (views (host ?s) (0, 0))) p \<longrightarrow>
                 \<not> formatCode p \<and> \<not> formatEntireFile p"
    by (simp add: initial_def)
  have live: "subscribed ?s"
    by (simp add: initial_def)
  have g: "grammar (views (host ?s) (0, 0)) = ''source.js''" "texts (host ?s) 0 = ''x''"
    "journal (unsubscribe (\<lambda>op. opBuffer op = getBuffer (0, 0)) ?s) = []"
    "nextId ?s = 0"
    by (simp_all add: initial_def exampleHost_def journal_unsubscribe)
  have a: "active (step exampleApi (Trigger CommandEvent (0, 0)) ?s) = []"
    by (simp add: live active_onTrigger handleEvent_def formatCodeInTextEditor_def
        getMatchingProvidersForScopeName_def)
       (simp add: initial_def exampleApi_def sortAbove_def)
  show ?thesis
    using command_without_provider [of exampleApi ?s "(0, 0)", OF exampleApi_permutes none live] a
    unfolding g using g(2) by simp
qed

text \<open>
  C9, as stated, fails: \<open>providerNeither\<close> matches the scope, has the highest priority
  and implements neither \<open>formatCode\<close> nor \<open>formatEntireFile\<close>; it is registered
  without an error, and the command then raises no error either, since the provider is
  passed over. With the empty selection the call goes to \<open>formatCode\<close> of
  \<open>providerLow\<close>, which has no \<open>formatEntireFile\<close>, over the range of the whole buffer.
\<close>

theorem command_dispatch_counterexample:
  "matchesScope (scopeName (selectionIn 1 1 1 1)) providerNeither \<and>
   \<not> formatCode providerNeither \<and> \<not> formatEntireFile providerNeither \<and>
   \<not> formatEntireFile providerLow \<and>
   isEmpty (selection (selectionIn 1 1 1 1)) \<and>
   formatCodeInTextEditor exampleApi
       (addProvider (addProvider [] providerNeither) providerLow) (selectionIn 1 1 1 1) =
     Awaiting (FormatCode providerLow (bufferRange (selectionIn 1 1 1 1)))"
proof -
  have scope: "scopeName (selectionIn 1 1 1 1) = ''source.js''"
    and sel: "isEmpty (selection (selectionIn 1 1 1 1))"
    by (simp_all add: selectionIn_def isEmpty_def)
  have flags: "\<not> formatCode providerNeither" "\<not> formatEntireFile providerNeither"
    "\<not> formatEntireFile providerLow" "formatCode providerLow"
    by (simp_all add: providerNeither_def providerLow_def)
  have res: "getMatchingProvidersForScopeName exampleApi [providerNeither, providerLow] ''source.js'' =
      [providerNeither, providerLow]"
    by (simp add: getMatchingProvidersForScopeName_def providerLow_matches providerNeither_matches)
       (simp add: exampleApi_def sortAbove_def comparePriority_def providerLow_def providerNeither_def)
  have "formatCodeInTextEditor exampleApi [providerNeither, providerLow] (selectionIn 1 1 1 1) =
     Awaiting (FormatCode providerLow (bufferRange (selectionIn 1 1 1 1)))"
    by (simp add: formatCodeInTextEditor_def scope res flags sel formatRange_def)
  then show ?thesis
    using flags sel providerNeither_matches by (simp add: scope addProvider_def)
qed

text \<open>
  C9, amended. For a sort that permutes its input: the command path fails with the
  no-provider error exactly when no registered provider matches the scope and implements
  \<open>formatCode\<close> or \<open>formatEntireFile\<close>, and it never fails with the must-implement
  error: a provider that implements neither is passed over. For the first provider \<open>p\<close>
  of those that match and implement one of the two: when \<open>p\<close> implements \<open>formatCode\<close>
  and the selection is not empty, \<open>formatCode\<close> is called with the format range;
  otherwise, when \<open>p\<close> implements \<open>formatEntireFile\<close>, that is called; otherwise (the
  selection is empty and \<open>p\<close> implements only \<open>formatCode\<close>) \<open>formatCode\<close> is called
  with the range of the whole buffer, which is the format range of an empty selection.
  Registration accepts any provider.
\<close>

theorem command_dispatch:
  assumes perm: "\<And>cmp xs. mset (arraySort api cmp xs) = mset xs"
  shows "((formatCodeInTextEditor api ps ed = Failed (NoProviders (scopeName ed))) =
            (\<forall>p\<in>set ps. matchesScope (scopeName ed) p \<longrightarrow> \<not> formatCode p \<and> \<not> formatEntireFile p)) \<and>
         formatCodeInTextEditor api ps ed \<noteq> Failed MustImplement \<and>
         (filter (\<lambda>p. formatCode p \<or> formatEntireFile p)
            (getMatchingProvidersForScopeName api ps (scopeName ed)) = p # rest \<longrightarrow>
          p \<in> set ps \<and> matchesScope (scopeName ed) p \<and> (formatCode p \<or> formatEntireFile p) \<and>
          formatCodeInTextEditor api ps ed =
            Awaiting (if formatCode p \<and> \<not> isEmpty (selection ed)
                        then FormatCode p (formatRange ed)
                      else if formatEntireFile p then FormatEntireFile p (formatRange ed)
                      else FormatCode p (bufferRange ed))) \<and>
         (isEmpty (selection ed) \<longrightarrow> formatRange ed = bufferRange ed) \<and>
         set (addProvider ps q) = insert q (set ps)"
proof -
  have a: "(formatCodeInTextEditor api ps ed = Failed (NoProviders (scopeName ed))) =
            (\<forall>p\<in>set ps. matchesScope (scopeName ed) p \<longrightarrow> \<not> formatCode p \<and> \<not> formatEntireFile p)"
    using capable_nil [OF perm, of ps "scopeName ed"]
    by (auto simp: formatCodeInTextEditor_def split: list.splits)
  have b: "formatCodeInTextEditor api ps ed \<noteq> Failed MustImplement"
  proof (cases "filter (\<lambda>p. formatCode p \<or> formatEntireFile p)
            (getMatchingProvidersForScopeName api ps (scopeName ed))")
    case Nil
    then show ?thesis by (simp add: formatCodeInTextEditor_def)
  next
    case (Cons p' rest')
    from capable_hd [OF perm Cons] have "formatCode p' \<or> formatEntireFile p'" by simp
    with Cons show ?thesis by (auto simp: formatCodeInTextEditor_def)
  qed
  have c: "p \<in> set ps \<and> matchesScope (scopeName ed) p \<and> (formatCode p \<or> formatEntireFile p) \<and>
          formatCodeInTextEditor api ps ed =
            Awaiting (if formatCode p \<and> \<not> isEmpty (selection ed)
                        then FormatCode p (formatRange ed)
                      else if formatEntireFile p then FormatEntireFile p (formatRange ed)
                      else FormatCode p (bufferRange ed))"
    if sel: "filter (\<lambda>p. formatCode p \<or> formatEntireFile p)
            (getMatchingProvidersForScopeName api ps (scopeName ed)) = p # rest"
  proof -
    note cap = capable_hd [OF perm sel]
    have "isEmpty (selection ed) \<Longrightarrow> formatRange ed = bufferRange ed"
      by (simp add: formatRange_def)
    with cap sel show ?thesis
      by (auto simp: formatCodeInTextEditor_def)
  qed
  have d: "isEmpty (selection ed) \<longrightarrow> formatRange ed = bufferRange ed"
    by (simp add: formatRange_def)
  show ?thesis
    using a b c d by (simp add: addProvider_def)
qed

theorem command_dispatch_witness:
  "formatCodeInTextEditor exampleApi [providerNeither] (selectionIn 1 1 1 1) =
     Failed (NoProviders ''source.js'') \<and>
   formatCodeInTextEditor exampleApi [providerLow, providerHigh] (selectionIn 2 5 2 10) =
     Awaiting (FormatCode providerHigh
       \<lparr>range_start = \<lparr>row = 2, column = 0\<rparr>, range_end = \<lparr>row = 3, column = 0\<rparr>\<rparr>) \<and>
   formatCodeInTextEditor exampleApi [providerLow, providerHigh] (selectionIn 1 1 1 1) =
     Awaiting (FormatEntireFile providerHigh (bufferRange (selectionIn 1 1 1 1)))"
proof -
  have scope: "\<And>a b c d. scopeName (selectionIn a b c d) = ''source.js''"
    by (simp add: selectionIn_def)
  have res: "filter (\<lambda>p. formatCode p \<or> formatEntireFile p)
      (getMatchingProvidersForScopeName exampleApi [providerLow, providerHigh] ''source.js'') =
      providerHigh # [providerLow]"
    by (simp add: getMatchingProvidersForScopeName_def providerLow_matches providerHigh_matches)
       (simp add: exampleApi_def sortAbove_def comparePriority_def providerLow_def providerHigh_def)
  have none: "\<forall>p\<in>set [providerNeither]. matchesScope ''source.js'' p \<longrightarrow>
      \<not> formatCode p \<and> \<not> formatEntireFile p"
    by (simp add: providerNeither_def)
  have sel: "\<not> isEmpty (selection (selectionIn 2 5 2 10))" "isEmpty (selection (selectionIn 1 1 1 1))"
    by (simp_all add: selectionIn_def isEmpty_def)
  have rng: "formatRange (selectionIn 2 5 2 10) =
      \<lparr>range_start = \<lparr>row = 2, column = 0\<rparr>, range_end = \<lparr>row = 3, column = 0\<rparr>\<rparr>"
    by (simp add: formatRange_def selectionIn_def isEmpty_def Range_def isLessThanOrEqual_def)
  have flags: "formatCode providerHigh" "formatEntireFile providerHigh"
    by (simp_all add: providerHigh_def)
  note d1 = command_dispatch [of exampleApi "[providerNeither]" "selectionIn 1 1 1 1",
      OF exampleApi_permutes, THEN conjunct1, unfolded scope]
  note d2 = command_dispatch [of exampleApi "[providerLow, providerHigh]" "selectionIn 2 5 2 10"
      providerHigh "[providerLow]", OF exampleApi_permutes,
      THEN conjunct2, THEN conjunct2, THEN conjunct1, unfolded scope, rule_format, OF res]
  note d3 = command_dispatch [of exampleApi "[providerLow, providerHigh]" "selectionIn 1 1 1 1"
      providerHigh "[providerLow]", OF exampleApi_permutes,
      THEN conjunct2, THEN conjunct2, unfolded scope]
  have w1: "formatCodeInTextEditor exampleApi [providerNeither] (selectionIn 1 1 1 1) =
     Failed (NoProviders ''source.js'')"
    using d1 none by blast
  have w2: "formatCodeInTextEditor exampleApi [providerLow, providerHigh] (selectionIn 2 5 2 10) =
     Awaiting (FormatCode providerHigh
       \<lparr>range_start = \<lparr>row = 2, column = 0\<rparr>, range_end = \<lparr>row = 3, column = 0\<rparr>\<rparr>)"
    using d2 sel(1) flags rng by simp
  have w3: "formatCodeInTextEditor exampleApi [providerLow, providerHigh] (selectionIn 1 1 1 1) =
     Awaiting (FormatEntireFile providerHigh (bufferRange (selectionIn 1 1 1 1)))"
    using d3 res sel(2) flags by simp
  show ?thesis
    using w1 w2 w3 by blast
qed

text \<open>
  C10. On the type path a provider's empty list of edits is a no-op: the callback
  throws nothing and leaves the editor as it is, whatever the snapshot, so also when the
  text has changed since; the comparison with the snapshot is not made. This is what the
  settlement of the promise runs, and storing the editor back leaves the host unchanged.
\<close>

theorem empty_edits_no_op:
  "onFormatAtPosition api snapshot ed [] = (None, ed) \<and>
   onSettled api (AwaitFormatAtPosition snapshot) (Edits []) (readEditor api h e) =
     Some (None, readEditor api h e) \<and>
   writeEditor h e (snd (onFormatAtPosition api snapshot (readEditor api h e) [])) = h"
  by (simp add: onFormatAtPosition_def write_read)

end
